theory Spec2Isabelle
  imports Main "HOL-Library.Word"
begin

section \<open>The MSM DMA/IOMMU mapping cache\<close>

text \<open>
  A shallow embedding of \<^verbatim>\<open>drivers/iommu/msm_dma_iommu_mapping.c\<close>: a cache of
  device mappings of shared buffers. The red-black tree \<^verbatim>\<open>iommu_root\<close> holds one
  \<^verbatim>\<open>msm_iommu_meta\<close> per buffer; each meta holds the list of its
  \<^verbatim>\<open>msm_iommu_map\<close> records, one per device. Both records are reference counted.

  Every public function is given as one step, run from its first line to its return
  without interleaving; the reader/writer locks are not modelled. The map call, which
  holds no lock between its lookup and its insertion, is also given as the two halves
  that another caller can separate. Pointers to devices and buffers are opaque
  addresses, modelled as natural numbers.
\<close>

subsection \<open>Data\<close>

type_synonym device = nat
type_synonym atomic_t = "32 word"

datatype dma_data_direction = DMA_BIDIRECTIONAL | DMA_TO_DEVICE | DMA_FROM_DEVICE | DMA_NONE

datatype dma_attr = DMA_ATTR_NO_DELAYED_UNMAP | DMA_ATTR_OTHER nat

text \<open>
  A \<^verbatim>\<open>struct dma_attrs *\<close>: \<open>None\<close> is the null pointer, \<open>Some as\<close> a structure
  in which exactly the attributes of \<open>as\<close> are set.
\<close>

type_synonym dma_attrs = "dma_attr list option"

text \<open>
  Record fields are global constants in Isabelle, and the two structures of the source
  both have a field \<^verbatim>\<open>refcount\<close>; every field is therefore written with the name
  of its structure in front: \<^verbatim>\<open>map->refcount\<close> is \<open>map_refcount\<close>,
  \<^verbatim>\<open>meta->refcount\<close> is \<open>meta_refcount\<close>, \<^verbatim>\<open>sg->dma_address\<close> is
  \<open>sg_dma_address\<close>.

  The list and tree links (\<^verbatim>\<open>lnode\<close>, \<^verbatim>\<open>node\<close>) are the positions in the
  lists below; \<^verbatim>\<open>map->meta\<close>, the pointer back to the owning meta, is the
  buffer that keys that meta.
\<close>

record scatterlist =
  sg_page_link :: "64 word"
  sg_offset :: "32 word"
  sg_length :: "32 word"
  sg_dma_address :: "64 word"
  sg_dma_length :: "32 word"

record msm_iommu_map =
  map_dev :: device
  map_meta :: nat
  map_sgl :: scatterlist
  map_dir :: dma_data_direction
  map_nents :: "32 word"
  map_refcount :: atomic_t

record msm_iommu_meta =
  meta_maps :: "msm_iommu_map list"
  meta_refcount :: atomic_t
  meta_buffer :: nat

record dma_buf =
  priv :: nat

subsection \<open>The environment\<close>

text \<open>
  Modelled from the spec: \<^verbatim>\<open>dma_map_sg_attrs\<close>, the platform mapping primitive, is
  outside this file. The spec gives it as
  \<^verbatim>\<open>platform_map(device, segments, direction, attributes) ->
  segments_with_device_addresses | retryable_failure\<close>: a call either fails (returns 0) and
  may be retried, or it writes the device address and length into the scatterlist.
\<close>

datatype dma_map_reply = Retryable_failure | Mapped "64 word" "32 word"

text \<open>
  Calls that leave the cache are recorded in a trace, in the order in which they happen:
  every call of \<^verbatim>\<open>dma_map_sg_attrs\<close> with its reply, every call of
  \<^verbatim>\<open>dma_unmap_sg\<close> with its four arguments, every \<^verbatim>\<open>kfree\<close> with the record
  it releases, and the barrier \<^verbatim>\<open>dmb(ish)\<close>.
\<close>

datatype event =
    Ev_dma_map_sg_attrs device "32 word" dma_data_direction dma_attrs dma_map_reply
  | Ev_dma_unmap_sg device scatterlist "32 word" dma_data_direction
  | Ev_kfree_map msm_iommu_map
  | Ev_kfree_meta msm_iommu_meta
  | Ev_dmb

text \<open>
  The state: the tree \<^verbatim>\<open>iommu_root\<close> as the sequence of its nodes in key order
  (what \<^verbatim>\<open>rb_first\<close>/\<^verbatim>\<open>rb_next\<close> enumerate), the trace, and what the
  environment will answer to the next calls of \<^verbatim>\<open>kmalloc\<close> (\<open>True\<close>: memory,
  \<open>False\<close>: a null pointer) and of \<^verbatim>\<open>dma_map_sg_attrs\<close>. The answers are a finite
  list; a retry loop that uses them up has not returned.
\<close>

record cache =
  iommu_root :: "msm_iommu_meta list"
  trace :: "event list"
  kmalloc_replies :: "bool list"
  dma_map_replies :: "dma_map_reply list"

text \<open>
  Modelled from the spec: \<^verbatim>\<open>dma_get_attr\<close> is declared outside this file; it tells
  whether the caller's attributes request the mode that \<^verbatim>\<open>DMA_ATTR_NO_DELAYED_UNMAP\<close>
  names, as 1 or 0, and 0 for a null attribute pointer.
\<close>

definition dma_get_attr :: "dma_attr \<Rightarrow> dma_attrs \<Rightarrow> int" where
  "dma_get_attr a attrs =
     (case attrs of None \<Rightarrow> 0 | Some as \<Rightarrow> if a \<in> set as then 1 else 0)"

text \<open>
  Modelled from the spec: the macro \<^verbatim>\<open>EINVAL\<close> comes from the kernel's errno
  header, outside this file; the spec calls \<^verbatim>\<open>-EINVAL\<close> the failure status. Its
  value in Linux is 22.
\<close>

definition EINVAL :: int where
  "EINVAL = 22"

subsection \<open>The buffer index\<close>

text \<open>
  \<^verbatim>\<open>msm_iommu_meta_add\<close> descends to the left where the new key is smaller and to
  the right otherwise, so in key order the new node comes before the first node with a
  larger key, and after every node with the same key.
\<close>

fun msm_iommu_meta_add :: "msm_iommu_meta \<Rightarrow> msm_iommu_meta list \<Rightarrow> msm_iommu_meta list" where
  "msm_iommu_meta_add new_meta [] = [new_meta]"
| "msm_iommu_meta_add new_meta (m # ms) =
     (if meta_buffer new_meta < meta_buffer m then new_meta # m # ms
      else m # msm_iommu_meta_add new_meta ms)"

text \<open>
  \<^verbatim>\<open>msm_iommu_meta_lookup\<close> returns the node whose key equals the buffer, or null.
  In a tree whose keys are distinct (see \<open>index_sorted\<close> below) that is the only node
  with the key.
\<close>

definition msm_iommu_meta_lookup :: "msm_iommu_meta list \<Rightarrow> nat \<Rightarrow> msm_iommu_meta option" where
  "msm_iommu_meta_lookup root b = find (\<lambda>m. meta_buffer m = b) root"

text \<open>A write through the pointer that the lookup of \<open>b\<close> returned.\<close>

fun meta_update ::
  "nat \<Rightarrow> (msm_iommu_meta \<Rightarrow> msm_iommu_meta) \<Rightarrow> msm_iommu_meta list \<Rightarrow> msm_iommu_meta list" where
  "meta_update b f [] = []"
| "meta_update b f (m # ms) = (if meta_buffer m = b then f m # ms else m # meta_update b f ms)"

text \<open>\<^verbatim>\<open>rb_erase\<close> of the node that the lookup of \<open>b\<close> returned.\<close>

fun rb_erase :: "nat \<Rightarrow> msm_iommu_meta list \<Rightarrow> msm_iommu_meta list" where
  "rb_erase b [] = []"
| "rb_erase b (m # ms) = (if meta_buffer m = b then ms else m # rb_erase b ms)"

subsection \<open>The mappings of one buffer\<close>

definition msm_iommu_map_add :: "msm_iommu_meta \<Rightarrow> msm_iommu_map \<Rightarrow> msm_iommu_meta" where
  "msm_iommu_map_add m mp = m\<lparr>meta_maps := mp # meta_maps m\<rparr>"

definition msm_iommu_map_lookup :: "msm_iommu_meta \<Rightarrow> device \<Rightarrow> msm_iommu_map option" where
  "msm_iommu_map_lookup m d = find (\<lambda>mp. map_dev mp = d) (meta_maps m)"

text \<open>A write through the pointer that the lookup of \<open>d\<close> returned.\<close>

fun map_update ::
  "device \<Rightarrow> (msm_iommu_map \<Rightarrow> msm_iommu_map) \<Rightarrow> msm_iommu_map list \<Rightarrow> msm_iommu_map list" where
  "map_update d f [] = []"
| "map_update d f (mp # mps) = (if map_dev mp = d then f mp # mps else mp # map_update d f mps)"

text \<open>\<^verbatim>\<open>list_del\<close> of the record that the lookup of \<open>d\<close> returned.\<close>

fun list_del :: "device \<Rightarrow> msm_iommu_map list \<Rightarrow> msm_iommu_map list" where
  "list_del d [] = []"
| "list_del d (mp # mps) = (if map_dev mp = d then mps else mp # list_del d mps)"

subsection \<open>Releasing a meta\<close>

text \<open>
  \<^verbatim>\<open>msm_iommu_meta_put\<close>: \<^verbatim>\<open>atomic_dec_return\<close>; a result other than 0 returns,
  0 erases the node from the tree and frees it. The argument is the key of a meta that
  is in the tree.
\<close>

definition msm_iommu_meta_put :: "cache \<Rightarrow> nat \<Rightarrow> cache" where
  "msm_iommu_meta_put st b =
     (case msm_iommu_meta_lookup (iommu_root st) b of
        None \<Rightarrow> st
      | Some m \<Rightarrow>
          (let st1 = st\<lparr>iommu_root :=
                         meta_update b (\<lambda>m. m\<lparr>meta_refcount := meta_refcount m - 1\<rparr>)
                           (iommu_root st)\<rparr>;
               m' = m\<lparr>meta_refcount := meta_refcount m - 1\<rparr>
           in if meta_refcount m' \<noteq> 0 then st1
              else st1\<lparr>iommu_root := rb_erase b (iommu_root st1),
                       trace := trace st1 @ [Ev_kfree_meta m']\<rparr>))"

subsection \<open>Retry loops\<close>

text \<open>
  \<^verbatim>\<open>while (!(p = kmalloc(...)));\<close> takes answers until one is memory. The result is
  the answers that are left, or \<open>None\<close> when no answer was memory.
\<close>

fun kmalloc_retry :: "bool list \<Rightarrow> bool list option" where
  "kmalloc_retry [] = None"
| "kmalloc_retry (ok # rs) = (if ok then Some rs else kmalloc_retry rs)"

text \<open>
  \<^verbatim>\<open>while (!dma_map_sg_attrs(dev, sg, nents, dir, attrs));\<close> calls the primitive
  until it succeeds; each call is traced.
\<close>

fun dma_map_retry ::
  "device \<Rightarrow> scatterlist \<Rightarrow> 32 word \<Rightarrow> dma_data_direction \<Rightarrow> dma_attrs \<Rightarrow>
   dma_map_reply list \<Rightarrow> event list \<Rightarrow> (scatterlist \<times> dma_map_reply list \<times> event list) option" where
  "dma_map_retry d sg n di attrs [] tr = None"
| "dma_map_retry d sg n di attrs (Retryable_failure # rs) tr =
     dma_map_retry d sg n di attrs rs (tr @ [Ev_dma_map_sg_attrs d n di attrs Retryable_failure])"
| "dma_map_retry d sg n di attrs (Mapped a l # rs) tr =
     Some (sg\<lparr>sg_dma_address := a, sg_dma_length := l\<rparr>, rs,
           tr @ [Ev_dma_map_sg_attrs d n di attrs (Mapped a l)])"

subsection \<open>Mapping\<close>

text \<open>
  The branch of \<^verbatim>\<open>msm_dma_map_sg_attrs\<close> taken when no map was found (source lines
  149 to 168): allocate the record, map for real, fill the record from the scatterlist
  and put it at the head of the list of the meta keyed \<open>b\<close>.
\<close>

definition map_miss ::
  "cache \<Rightarrow> device \<Rightarrow> scatterlist \<Rightarrow> 32 word \<Rightarrow> dma_data_direction \<Rightarrow> nat \<Rightarrow> dma_attrs \<Rightarrow>
   int \<Rightarrow> (cache \<times> scatterlist \<times> 32 word) option" where
  "map_miss st d sg n di b attrs not_lazy =
     (case kmalloc_retry (kmalloc_replies st) of
        None \<Rightarrow> None
      | Some ks \<Rightarrow>
          (case dma_map_retry d sg n di attrs (dma_map_replies st) (trace st) of
             None \<Rightarrow> None
           | Some (sg', rs, tr) \<Rightarrow>
               (let mp = \<lparr>map_dev = d, map_meta = b,
                          map_sgl = \<lparr>sg_page_link = sg_page_link sg', sg_offset = sg_offset sg',
                                     sg_length = sg_length sg',
                                     sg_dma_address = sg_dma_address sg',
                                     sg_dma_length = sg_dma_length sg'\<rparr>,
                          map_dir = di, map_nents = n,
                          map_refcount = word_of_int (2 - not_lazy)\<rparr>
                in Some (st\<lparr>iommu_root := meta_update b (\<lambda>m. msm_iommu_map_add m mp) (iommu_root st),
                            trace := tr, kmalloc_replies := ks, dma_map_replies := rs\<rparr>,
                         sg', n))))"

text \<open>
  \<^verbatim>\<open>msm_dma_map_sg_attrs\<close>. The first argument is \<^verbatim>\<open>is_device_dma_coherent\<close>,
  which is outside this file. The result is the new state, the caller's scatterlist as
  the call leaves it, and the return value; \<open>None\<close> when a retry loop has not returned.
\<close>

definition msm_dma_map_sg_attrs ::
  "(device \<Rightarrow> bool) \<Rightarrow> cache \<Rightarrow> device \<Rightarrow> scatterlist \<Rightarrow> 32 word \<Rightarrow> dma_data_direction \<Rightarrow>
   dma_buf \<Rightarrow> dma_attrs \<Rightarrow> (cache \<times> scatterlist \<times> 32 word) option" where
  "msm_dma_map_sg_attrs is_device_dma_coherent st d sg n di dbuf attrs =
     (let not_lazy = dma_get_attr DMA_ATTR_NO_DELAYED_UNMAP attrs in
      case msm_iommu_meta_lookup (iommu_root st) (priv dbuf) of
        Some m \<Rightarrow>
          (let st1 = st\<lparr>iommu_root :=
                         meta_update (priv dbuf)
                           (\<lambda>m. m\<lparr>meta_refcount := meta_refcount m + 1\<rparr>) (iommu_root st)\<rparr>
           in case msm_iommu_map_lookup m d of
                Some mp \<Rightarrow>
                  (let st2 = st1\<lparr>iommu_root :=
                                  meta_update (priv dbuf)
                                    (\<lambda>m. m\<lparr>meta_maps :=
                                             map_update d
                                               (\<lambda>p. p\<lparr>map_refcount := map_refcount p + 1\<rparr>)
                                               (meta_maps m)\<rparr>)
                                    (iommu_root st1)\<rparr>;
                       sg' = sg\<lparr>sg_dma_address := sg_dma_address (map_sgl mp),
                                sg_dma_length := sg_dma_length (map_sgl mp)\<rparr>;
                       st3 = (if is_device_dma_coherent d
                              then st2\<lparr>trace := trace st2 @ [Ev_dmb]\<rparr> else st2)
                   in Some (st3, sg', n))
              | None \<Rightarrow> map_miss st1 d sg n di (priv dbuf) attrs not_lazy)
      | None \<Rightarrow>
          (case kmalloc_retry (kmalloc_replies st) of
             None \<Rightarrow> None
           | Some ks \<Rightarrow>
               (let new_meta = \<lparr>meta_maps = [], meta_refcount = word_of_int (2 - not_lazy),
                                meta_buffer = priv dbuf\<rparr>;
                    st1 = st\<lparr>iommu_root := msm_iommu_meta_add new_meta (iommu_root st),
                             kmalloc_replies := ks\<rparr>
                in map_miss st1 d sg n di (priv dbuf) attrs not_lazy)))"



subsection \<open>Unmapping\<close>

text \<open>
  The two statements that every unmapping path runs on a record it has taken off its
  list: \<^verbatim>\<open>dma_unmap_sg(map->dev, &map->sgl, map->nents, map->dir); kfree(map);\<close>
\<close>

definition unmap_and_free :: "msm_iommu_map \<Rightarrow> event list" where
  "unmap_and_free mp =
     [Ev_dma_unmap_sg (map_dev mp) (map_sgl mp) (map_nents mp) (map_dir mp), Ev_kfree_map mp]"

text \<open>
  \<^verbatim>\<open>msm_dma_unmap_sg\<close>. The scatterlist, count and direction arguments of the
  source are not read by it.
\<close>

definition msm_dma_unmap_sg :: "cache \<Rightarrow> device \<Rightarrow> dma_buf \<Rightarrow> cache" where
  "msm_dma_unmap_sg st d dbuf =
     (case msm_iommu_meta_lookup (iommu_root st) (priv dbuf) of
        None \<Rightarrow> st
      | Some m \<Rightarrow>
          (case msm_iommu_map_lookup m d of
             None \<Rightarrow> st
           | Some mp \<Rightarrow>
               (let mp' = mp\<lparr>map_refcount := map_refcount mp - 1\<rparr>;
                    free_map = (map_refcount mp' = 0);
                    st1 = st\<lparr>iommu_root :=
                               meta_update (priv dbuf)
                                 (\<lambda>m. m\<lparr>meta_maps :=
                                          (if free_map then list_del d (meta_maps m)
                                           else map_update d
                                                  (\<lambda>p. p\<lparr>map_refcount := map_refcount p - 1\<rparr>)
                                                  (meta_maps m))\<rparr>)
                                 (iommu_root st)\<rparr>;
                    st2 = (if free_map then st1\<lparr>trace := trace st1 @ unmap_and_free mp'\<rparr>
                           else st1)
                in msm_iommu_meta_put st2 (priv dbuf))))"

text \<open>
  The inner loop of \<^verbatim>\<open>msm_dma_unmap_all_for_dev\<close> over the maps of one meta. The
  arguments are the device, the maps still to visit, \<^verbatim>\<open>unmap_list\<close> and
  \<^verbatim>\<open>ret\<close>; the result is the list as the loop leaves it, \<^verbatim>\<open>unmap_list\<close> and
  \<^verbatim>\<open>ret\<close>.
\<close>

fun unmap_all_maps ::
  "device \<Rightarrow> msm_iommu_map list \<Rightarrow> msm_iommu_map list \<Rightarrow> int \<Rightarrow>
   msm_iommu_map list \<times> msm_iommu_map list \<times> int" where
  "unmap_all_maps d [] unmap_list ret = ([], unmap_list, ret)"
| "unmap_all_maps d (mp # mps) unmap_list ret =
     (if map_dev mp \<noteq> d then
        (case unmap_all_maps d mps unmap_list ret of
           (kept, ul, r) \<Rightarrow> (mp # kept, ul, r))
      else
        (let mp' = mp\<lparr>map_refcount := map_refcount mp - 1\<rparr> in
         if map_refcount mp' = 0 then unmap_all_maps d mps (unmap_list @ [mp']) ret
         else (case unmap_all_maps d mps unmap_list (- EINVAL) of
                 (kept, ul, r) \<Rightarrow> (mp' # kept, ul, r))))"

text \<open>The outer loop, over the nodes of the tree from \<^verbatim>\<open>rb_first\<close> on.\<close>

fun unmap_all_metas ::
  "device \<Rightarrow> msm_iommu_meta list \<Rightarrow> msm_iommu_map list \<Rightarrow> int \<Rightarrow>
   msm_iommu_meta list \<times> msm_iommu_map list \<times> int" where
  "unmap_all_metas d [] unmap_list ret = ([], unmap_list, ret)"
| "unmap_all_metas d (m # ms) unmap_list ret =
     (case unmap_all_maps d (meta_maps m) unmap_list ret of
        (kept, ul, r) \<Rightarrow>
          (case unmap_all_metas d ms ul r of
             (ms', ul', r') \<Rightarrow> (m\<lparr>meta_maps := kept\<rparr> # ms', ul', r')))"

definition msm_dma_unmap_all_for_dev :: "cache \<Rightarrow> device \<Rightarrow> cache \<times> int" where
  "msm_dma_unmap_all_for_dev st d =
     (case unmap_all_metas d (iommu_root st) [] 0 of
        (root', unmap_list, ret) \<Rightarrow>
          (st\<lparr>iommu_root := root',
              trace := trace st @ concat (map unmap_and_free unmap_list)\<rparr>, ret))"

text \<open>
  The loop of \<^verbatim>\<open>msm_dma_buf_freed\<close> over the maps of the meta: a record whose
  count reaches 0 goes to the tail of \<^verbatim>\<open>unmap_list\<close>; any other record is taken
  off the list by \<^verbatim>\<open>list_del_init\<close> and is in no list afterwards. The result is
  \<^verbatim>\<open>unmap_list\<close>; the list of the meta is empty when the loop ends.
\<close>

fun buf_freed_maps :: "msm_iommu_map list \<Rightarrow> msm_iommu_map list \<Rightarrow> msm_iommu_map list" where
  "buf_freed_maps [] unmap_list = unmap_list"
| "buf_freed_maps (mp # mps) unmap_list =
     (let mp' = mp\<lparr>map_refcount := map_refcount mp - 1\<rparr> in
      if map_refcount mp' = 0 then buf_freed_maps mps (unmap_list @ [mp'])
      else buf_freed_maps mps unmap_list)"

definition msm_dma_buf_freed :: "cache \<Rightarrow> nat \<Rightarrow> cache" where
  "msm_dma_buf_freed st b =
     (case msm_iommu_meta_lookup (iommu_root st) b of
        None \<Rightarrow> st
      | Some m \<Rightarrow>
          (let unmap_list = buf_freed_maps (meta_maps m) [];
               st1 = st\<lparr>iommu_root := meta_update b (\<lambda>m. m\<lparr>meta_maps := []\<rparr>) (iommu_root st)\<rparr>;
               st2 = st1\<lparr>trace := trace st1 @ concat (map unmap_and_free unmap_list)\<rparr>
           in msm_iommu_meta_put st2 b))"

subsection \<open>Observations and invariants\<close>

text \<open>The keys of the tree are strictly increasing in key order.\<close>

definition index_sorted :: "cache \<Rightarrow> bool" where
  "index_sorted st = sorted_wrt (<) (map meta_buffer (iommu_root st))"

text \<open>No meta of the tree holds two maps for one device.\<close>

definition maps_unique :: "cache \<Rightarrow> bool" where
  "maps_unique st = list_all (\<lambda>m. distinct (map map_dev (meta_maps m))) (iommu_root st)"

text \<open>The map that the cache holds for a buffer and a device, if any.\<close>

definition cached_map :: "cache \<Rightarrow> nat \<Rightarrow> device \<Rightarrow> msm_iommu_map option" where
  "cached_map st b d =
     (case msm_iommu_meta_lookup (iommu_root st) b of
        None \<Rightarrow> None
      | Some m \<Rightarrow> msm_iommu_map_lookup m d)"

text \<open>
  Words for the sweep of \<open>msm_dma_unmap_all_for_dev\<close> over the maps of one meta: the
  maps of the device whose count reaches 0 on one decrement, as they are when they leave
  the list; the list that remains; and whether some map of the device keeps a count
  other than 0.
\<close>

definition sweep_released :: "device \<Rightarrow> msm_iommu_map list \<Rightarrow> msm_iommu_map list" where
  "sweep_released d mps =
     map (\<lambda>p. p\<lparr>map_refcount := map_refcount p - 1\<rparr>)
       (filter (\<lambda>p. map_dev p = d \<and> map_refcount p - 1 = 0) mps)"

definition sweep_kept :: "device \<Rightarrow> msm_iommu_map list \<Rightarrow> msm_iommu_map list" where
  "sweep_kept d mps =
     map (\<lambda>p. if map_dev p = d then p\<lparr>map_refcount := map_refcount p - 1\<rparr> else p)
       (filter (\<lambda>p. \<not> (map_dev p = d \<and> map_refcount p - 1 = 0)) mps)"

definition sweep_fails :: "device \<Rightarrow> msm_iommu_map list \<Rightarrow> bool" where
  "sweep_fails d mps = list_ex (\<lambda>p. map_dev p = d \<and> map_refcount p - 1 \<noteq> 0) mps"

text \<open>
  The maps that the loop of \<open>msm_dma_buf_freed\<close> moves to \<^verbatim>\<open>unmap_list\<close>: those
  whose count reaches 0 on one decrement, as they are when they leave the list.
\<close>

definition freed_released :: "msm_iommu_map list \<Rightarrow> msm_iommu_map list" where
  "freed_released mps =
     map (\<lambda>p. p\<lparr>map_refcount := map_refcount p - 1\<rparr>)
       (filter (\<lambda>p. map_refcount p - 1 = 0) mps)"

text \<open>The empty cache, with the environment's answers.\<close>

definition empty_cache :: "bool list \<Rightarrow> dma_map_reply list \<Rightarrow> cache" where
  "empty_cache ks rs = \<lparr>iommu_root = [], trace = [], kmalloc_replies = ks, dma_map_replies = rs\<rparr>"

subsection \<open>A concrete run\<close>

text \<open>
  Device 1 maps buffer 7, one segment, towards the device, on a platform where no device
  is coherent and the mapping primitive answers with device address 4096 and length 64.
\<close>

definition no_device_coherent :: "device \<Rightarrow> bool" where
  "no_device_coherent d = False"

definition ex_buf :: dma_buf where
  "ex_buf = \<lparr>priv = 7\<rparr>"

definition ex_sg :: scatterlist where
  "ex_sg = \<lparr>sg_page_link = 5, sg_offset = 0, sg_length = 4096,
            sg_dma_address = 0, sg_dma_length = 0\<rparr>"

definition ex_sg_mapped :: scatterlist where
  "ex_sg_mapped = \<lparr>sg_page_link = 5, sg_offset = 0, sg_length = 4096,
                   sg_dma_address = 4096, sg_dma_length = 64\<rparr>"

definition ex_start :: cache where
  "ex_start = empty_cache [True, True] [Mapped 4096 64]"

definition ex_map :: "atomic_t \<Rightarrow> msm_iommu_map" where
  "ex_map rc = \<lparr>map_dev = 1, map_meta = 7, map_sgl = ex_sg_mapped, map_dir = DMA_TO_DEVICE,
                map_nents = 1, map_refcount = rc\<rparr>"

definition ex_meta :: "atomic_t \<Rightarrow> atomic_t \<Rightarrow> msm_iommu_meta" where
  "ex_meta mrc rc = \<lparr>meta_maps = [ex_map rc], meta_refcount = mrc, meta_buffer = 7\<rparr>"

text \<open>
  The state once the mapping exists, with count \<open>mrc\<close> in the meta and \<open>rc\<close> in the
  map, after a creating call with attributes \<open>attrs\<close>.
\<close>

definition ex_cache :: "dma_attrs \<Rightarrow> atomic_t \<Rightarrow> atomic_t \<Rightarrow> cache" where
  "ex_cache attrs mrc rc =
     \<lparr>iommu_root = [ex_meta mrc rc],
      trace = [Ev_dma_map_sg_attrs 1 1 DMA_TO_DEVICE attrs (Mapped 4096 64)],
      kmalloc_replies = [], dma_map_replies = []\<rparr>"

text \<open>
  A second state: buffer 3 is mapped by device 1 without the attribute (count 2) and by
  device 2 with it (count 1); buffer 7 is mapped by device 1 with the attribute.
\<close>

definition ex_map_of :: "device \<Rightarrow> nat \<Rightarrow> atomic_t \<Rightarrow> msm_iommu_map" where
  "ex_map_of d b rc = \<lparr>map_dev = d, map_meta = b, map_sgl = ex_sg_mapped, map_dir = DMA_TO_DEVICE,
                       map_nents = 1, map_refcount = rc\<rparr>"

definition ex_shared :: cache where
  "ex_shared =
     \<lparr>iommu_root =
        [\<lparr>meta_maps = [ex_map_of 1 3 2, ex_map_of 2 3 1], meta_refcount = 2, meta_buffer = 3\<rparr>,
         \<lparr>meta_maps = [ex_map_of 1 7 1], meta_refcount = 1, meta_buffer = 7\<rparr>],
      trace = [], kmalloc_replies = [True], dma_map_replies = [Mapped 8192 64]\<rparr>"

text \<open>The same state after the sweep for device 1.\<close>

definition ex_shared_swept :: cache where
  "ex_shared_swept =
     \<lparr>iommu_root =
        [\<lparr>meta_maps = [ex_map_of 1 3 1, ex_map_of 2 3 1], meta_refcount = 2, meta_buffer = 3\<rparr>,
         \<lparr>meta_maps = [], meta_refcount = 1, meta_buffer = 7\<rparr>],
      trace = [Ev_dma_unmap_sg 1 ex_sg_mapped 1 DMA_TO_DEVICE, Ev_kfree_map (ex_map_of 1 7 0)],
      kmalloc_replies = [True], dma_map_replies = [Mapped 8192 64]\<rparr>"

text \<open>
  A third state: buffer 3 is mapped by device 2 at address 12288; buffer 7 is mapped by
  device 1 at address 4096 and, later, by device 2 at address 8192.
\<close>

definition ex_map_at :: "device \<Rightarrow> nat \<Rightarrow> atomic_t \<Rightarrow> 64 word \<Rightarrow> msm_iommu_map" where
  "ex_map_at d b rc a =
     \<lparr>map_dev = d, map_meta = b,
      map_sgl = \<lparr>sg_page_link = 5, sg_offset = 0, sg_length = 4096,
                 sg_dma_address = a, sg_dma_length = 64\<rparr>,
      map_dir = DMA_TO_DEVICE, map_nents = 1, map_refcount = rc\<rparr>"

definition ex_meta3 :: msm_iommu_meta where
  "ex_meta3 = \<lparr>meta_maps = [ex_map_at 2 3 2 12288], meta_refcount = 2, meta_buffer = 3\<rparr>"

definition ex_meta7 :: msm_iommu_meta where
  "ex_meta7 = \<lparr>meta_maps = [ex_map_at 2 7 2 8192, ex_map_at 1 7 2 4096], meta_refcount = 3,
               meta_buffer = 7\<rparr>"

definition ex_two_devices :: cache where
  "ex_two_devices =
     \<lparr>iommu_root = [ex_meta3, ex_meta7], trace = [], kmalloc_replies = [], dma_map_replies = []\<rparr>"

text \<open>
  Two map calls of device 1 for buffer 7 that overlap, from the empty cache: the states
  after the lookup of the first call, after the whole second call, and after the rest of
  the first call.
\<close>

definition ex_race_start :: cache where
  "ex_race_start = empty_cache [True, True, True] [Mapped 4096 64, Mapped 8192 64]"

definition ex_race_looked_up :: cache where
  "ex_race_looked_up =
     \<lparr>iommu_root = [\<lparr>meta_maps = [], meta_refcount = 2, meta_buffer = 7\<rparr>],
      trace = [], kmalloc_replies = [True, True],
      dma_map_replies = [Mapped 4096 64, Mapped 8192 64]\<rparr>"

definition ex_race_other_mapped :: cache where
  "ex_race_other_mapped =
     \<lparr>iommu_root = [\<lparr>meta_maps = [ex_map_at 1 7 2 4096], meta_refcount = 3, meta_buffer = 7\<rparr>],
      trace = [Ev_dma_map_sg_attrs 1 1 DMA_TO_DEVICE None (Mapped 4096 64)],
      kmalloc_replies = [True], dma_map_replies = [Mapped 8192 64]\<rparr>"

definition ex_race_end :: cache where
  "ex_race_end =
     \<lparr>iommu_root = [\<lparr>meta_maps = [ex_map_at 1 7 2 8192, ex_map_at 1 7 2 4096],
                     meta_refcount = 3, meta_buffer = 7\<rparr>],
      trace = [Ev_dma_map_sg_attrs 1 1 DMA_TO_DEVICE None (Mapped 4096 64),
               Ev_dma_map_sg_attrs 1 1 DMA_TO_DEVICE None (Mapped 8192 64)],
      kmalloc_replies = [], dma_map_replies = []\<rparr>"

lemmas ex_defs =
  no_device_coherent_def ex_buf_def ex_sg_def ex_sg_mapped_def ex_start_def ex_map_def
  ex_meta_def ex_cache_def empty_cache_def ex_map_of_def ex_shared_def ex_shared_swept_def
  ex_map_at_def ex_meta3_def ex_meta7_def ex_two_devices_def ex_race_start_def
  ex_race_looked_up_def ex_race_other_mapped_def ex_race_end_def

section \<open>Properties\<close>

subsection \<open>Lookups after writes\<close>

lemma lookup_meta_update:
  "(\<And>m. meta_buffer (f m) = meta_buffer m) \<Longrightarrow>
   msm_iommu_meta_lookup (meta_update b f root) b' =
     (if b' = b then map_option f (msm_iommu_meta_lookup root b)
      else msm_iommu_meta_lookup root b')"
  by (induction root) (auto simp: msm_iommu_meta_lookup_def)

lemma lookup_meta_add:
  "msm_iommu_meta_lookup root (meta_buffer new_meta) = None \<Longrightarrow>
   msm_iommu_meta_lookup (msm_iommu_meta_add new_meta root) b' =
     (if b' = meta_buffer new_meta then Some new_meta else msm_iommu_meta_lookup root b')"
  by (induction root) (auto simp: msm_iommu_meta_lookup_def split: if_splits)

lemma lookup_rb_erase_other:
  "b' \<noteq> b \<Longrightarrow> msm_iommu_meta_lookup (rb_erase b root) b' = msm_iommu_meta_lookup root b'"
  by (induction root) (auto simp: msm_iommu_meta_lookup_def)

lemma lookup_None_iff:
  "msm_iommu_meta_lookup root b = None \<longleftrightarrow> b \<notin> meta_buffer ` set root"
  by (induction root) (auto simp: msm_iommu_meta_lookup_def)

lemma lookup_rb_erase_same:
  "distinct (map meta_buffer root) \<Longrightarrow> msm_iommu_meta_lookup (rb_erase b root) b = None"
  by (induction root) (auto simp: msm_iommu_meta_lookup_def lookup_None_iff[unfolded msm_iommu_meta_lookup_def])

lemma lookup_Some_buffer:
  "msm_iommu_meta_lookup root b = Some m \<Longrightarrow> meta_buffer m = b \<and> m \<in> set root"
  by (induction root) (auto simp: msm_iommu_meta_lookup_def split: if_splits)

lemma meta_update_twice:
  "(\<And>m. meta_buffer (g m) = meta_buffer m) \<Longrightarrow>
   meta_update b f (meta_update b g root) = meta_update b (\<lambda>m. f (g m)) root"
  by (induction root) auto

lemma rb_erase_meta_update:
  "(\<And>m. meta_buffer (f m) = meta_buffer m) \<Longrightarrow>
   rb_erase b (meta_update b f root) = rb_erase b root"
  by (induction root) auto

lemma map_lookup_update:
  "(\<And>p. map_dev (f p) = map_dev p) \<Longrightarrow>
   find (\<lambda>p. map_dev p = d') (map_update d f mps) =
     (if d' = d then map_option f (find (\<lambda>p. map_dev p = d) mps)
      else find (\<lambda>p. map_dev p = d') mps)"
  by (induction mps) auto

lemma map_lookup_list_del_other:
  "d' \<noteq> d \<Longrightarrow> find (\<lambda>p. map_dev p = d') (list_del d mps) = find (\<lambda>p. map_dev p = d') mps"
  by (induction mps) auto

lemma map_lookup_list_del_same:
  "distinct (map map_dev mps) \<Longrightarrow> find (\<lambda>p. map_dev p = d) (list_del d mps) = None"
proof (induction mps)
  case Nil
  then show ?case by simp
next
  case (Cons p ps)
  have "map_dev p \<notin> map_dev ` set ps" using Cons.prems by simp
  then have "find (\<lambda>q. map_dev q = map_dev p) ps = None"
    unfolding find_None_iff by (metis imageI)
  with Cons show ?case by auto
qed

subsection \<open>Key order\<close>

lemma keys_meta_update:
  "(\<And>m. meta_buffer (f m) = meta_buffer m) \<Longrightarrow>
   map meta_buffer (meta_update b f root) = map meta_buffer root"
  by (induction root) auto

lemma set_rb_erase: "set (rb_erase b root) \<subseteq> set root"
  by (induction root) auto

lemma sorted_rb_erase:
  "sorted_wrt (<) (map meta_buffer root) \<Longrightarrow> sorted_wrt (<) (map meta_buffer (rb_erase b root))"
proof (induction root)
  case Nil
  then show ?case by simp
next
  case (Cons m ms)
  have "set (rb_erase b ms) \<subseteq> set ms" by (rule set_rb_erase)
  with Cons show ?case by auto
qed

lemma set_meta_add: "set (msm_iommu_meta_add new_meta root) = insert new_meta (set root)"
  by (induction root) auto

lemma sorted_meta_add:
  "sorted_wrt (<) (map meta_buffer root) \<Longrightarrow> meta_buffer new_meta \<notin> meta_buffer ` set root \<Longrightarrow>
   sorted_wrt (<) (map meta_buffer (msm_iommu_meta_add new_meta root))"
proof (induction root)
  case Nil
  then show ?case by simp
next
  case (Cons m ms)
  show ?case
  proof (cases "meta_buffer new_meta < meta_buffer m")
    case True
    with Cons.prems show ?thesis by auto
  next
    case False
    with Cons.prems have lt: "meta_buffer m < meta_buffer new_meta" by auto
    from Cons have "sorted_wrt (<) (map meta_buffer (msm_iommu_meta_add new_meta ms))" by auto
    with lt Cons.prems False show ?thesis by (auto simp: set_meta_add)
  qed
qed

subsection \<open>Retry loops return when the environment lets them\<close>

lemma kmalloc_retry_returns:
  "Suc k \<le> length (filter id ks) \<Longrightarrow>
   \<exists>rest. kmalloc_retry ks = Some rest \<and> k \<le> length (filter id rest)"
  by (induction ks) (auto split: if_splits)

lemma dma_map_retry_returns:
  "list_ex (\<lambda>r. r \<noteq> Retryable_failure) rs \<Longrightarrow>
   \<exists>a l rest tr'. dma_map_retry d sg n di attrs rs tr =
      Some (sg\<lparr>sg_dma_address := a, sg_dma_length := l\<rparr>, rest, tr')"
  by (induction d sg n di attrs rs tr rule: dma_map_retry.induct) auto

subsection \<open>A map call that finds the mapping\<close>

lemma map_hit_eq:
  assumes "msm_iommu_meta_lookup (iommu_root st) (priv dbuf) = Some m"
    and "msm_iommu_map_lookup m d = Some mp"
  shows "msm_dma_map_sg_attrs coh st d sg n di dbuf attrs =
     Some (st\<lparr>iommu_root :=
                 meta_update (priv dbuf)
                   (\<lambda>m. m\<lparr>meta_refcount := meta_refcount m + 1,
                          meta_maps := map_update d (\<lambda>p. p\<lparr>map_refcount := map_refcount p + 1\<rparr>)
                                         (meta_maps m)\<rparr>)
                   (iommu_root st),
               trace := trace st @ (if coh d then [Ev_dmb] else [])\<rparr>,
           sg\<lparr>sg_dma_address := sg_dma_address (map_sgl mp),
              sg_dma_length := sg_dma_length (map_sgl mp)\<rparr>, n)"
  using assms by (simp add: msm_dma_map_sg_attrs_def Let_def meta_update_twice)

lemma devs_map_update:
  "(\<And>p. map_dev (f p) = map_dev p) \<Longrightarrow> map map_dev (map_update d f mps) = map map_dev mps"
  by (induction mps) auto

lemma cached_map_Some:
  "cached_map st b d = Some mp \<longleftrightarrow>
   (\<exists>m. msm_iommu_meta_lookup (iommu_root st) b = Some m \<and> msm_iommu_map_lookup m d = Some mp)"
  by (simp add: cached_map_def split: option.splits)

lemma cached_map_None:
  "cached_map st b d = None \<longleftrightarrow>
   (case msm_iommu_meta_lookup (iommu_root st) b of
      None \<Rightarrow> True | Some m \<Rightarrow> msm_iommu_map_lookup m d = None)"
  by (simp add: cached_map_def split: option.splits)

lemma map_hit_lookup:
  assumes "msm_iommu_meta_lookup (iommu_root st) (priv dbuf) = Some m"
    and "msm_iommu_map_lookup m d = Some mp"
    and "msm_dma_map_sg_attrs coh st d sg n di dbuf attrs = Some (st', sg', r)"
  shows "msm_iommu_meta_lookup (iommu_root st') b' =
           (if b' = priv dbuf
            then Some (m\<lparr>meta_refcount := meta_refcount m + 1,
                         meta_maps := map_update d (\<lambda>p. p\<lparr>map_refcount := map_refcount p + 1\<rparr>)
                                        (meta_maps m)\<rparr>)
            else msm_iommu_meta_lookup (iommu_root st) b')"
  using assms(3) unfolding map_hit_eq [OF assms(1,2)]
  by (auto simp: lookup_meta_update assms(1))

text \<open>
  C7. For a device and a buffer with no cached mapping (the buffer has no meta, or its
  meta has no map for the device), \<open>msm_dma_unmap_sg\<close> returns the state it was given:
  the tree, every reference count, and the trace of outside calls are unchanged.
\<close>

theorem unmap_sg_without_mapping_is_noop:
  "cached_map st (priv dbuf) d = None \<Longrightarrow> msm_dma_unmap_sg st d dbuf = st"
  by (simp add: cached_map_def msm_dma_unmap_sg_def split: option.splits)

text \<open>
  C10. A map call that finds a meta for the buffer and in it a map for the device adds 1
  to the count of the meta and 1 to the count of the map (as 32-bit counters), leaves
  every other map of the meta and every other meta as they were, and does all this
  whatever the attributes of the call are: any two attribute arguments give the same
  result.
\<close>

theorem cache_hit_increments_both_refcounts:
  assumes "msm_iommu_meta_lookup (iommu_root st) (priv dbuf) = Some m"
    and "msm_iommu_map_lookup m d = Some mp"
  shows "\<exists>st' sg'.
      msm_dma_map_sg_attrs coh st d sg n di dbuf attrs = Some (st', sg', n) \<and>
      msm_dma_map_sg_attrs coh st d sg n di dbuf attrs' = Some (st', sg', n) \<and>
      (\<exists>m'. msm_iommu_meta_lookup (iommu_root st') (priv dbuf) = Some m' \<and>
            meta_refcount m' = meta_refcount m + 1 \<and>
            meta_buffer m' = meta_buffer m \<and>
            map map_dev (meta_maps m') = map map_dev (meta_maps m) \<and>
            msm_iommu_map_lookup m' d = Some (mp\<lparr>map_refcount := map_refcount mp + 1\<rparr>) \<and>
            (\<forall>d'. d' \<noteq> d \<longrightarrow> msm_iommu_map_lookup m' d' = msm_iommu_map_lookup m d')) \<and>
      (\<forall>b'. b' \<noteq> priv dbuf \<longrightarrow>
            msm_iommu_meta_lookup (iommu_root st') b' = msm_iommu_meta_lookup (iommu_root st) b')"
proof -
  let ?m' = "m\<lparr>meta_refcount := meta_refcount m + 1,
                meta_maps := map_update d (\<lambda>p. p\<lparr>map_refcount := map_refcount p + 1\<rparr>)
                               (meta_maps m)\<rparr>"
  obtain st' sg' where r: "msm_dma_map_sg_attrs coh st d sg n di dbuf attrs = Some (st', sg', n)"
    using map_hit_eq [OF assms] by blast
  have r': "msm_dma_map_sg_attrs coh st d sg n di dbuf attrs' = Some (st', sg', n)"
    using r unfolding map_hit_eq [OF assms] .
  have lk: "\<And>b'. msm_iommu_meta_lookup (iommu_root st') b' =
      (if b' = priv dbuf then Some ?m' else msm_iommu_meta_lookup (iommu_root st) b')"
    by (rule map_hit_lookup [OF assms r])
  have devs: "map map_dev (meta_maps ?m') = map map_dev (meta_maps m)"
    by (simp add: devs_map_update)
  have hit: "msm_iommu_map_lookup ?m' d = Some (mp\<lparr>map_refcount := map_refcount mp + 1\<rparr>)"
    using assms(2) by (simp add: msm_iommu_map_lookup_def map_lookup_update)
  have others: "\<forall>d'. d' \<noteq> d \<longrightarrow> msm_iommu_map_lookup ?m' d' = msm_iommu_map_lookup m d'"
    by (simp add: msm_iommu_map_lookup_def map_lookup_update)
  have inner: "\<exists>m'. msm_iommu_meta_lookup (iommu_root st') (priv dbuf) = Some m' \<and>
            meta_refcount m' = meta_refcount m + 1 \<and>
            meta_buffer m' = meta_buffer m \<and>
            map map_dev (meta_maps m') = map map_dev (meta_maps m) \<and>
            msm_iommu_map_lookup m' d = Some (mp\<lparr>map_refcount := map_refcount mp + 1\<rparr>) \<and>
            (\<forall>d'. d' \<noteq> d \<longrightarrow> msm_iommu_map_lookup m' d' = msm_iommu_map_lookup m d')"
    using devs hit others by (intro exI [of _ ?m']) (simp add: lk)
  have rest: "\<forall>b'. b' \<noteq> priv dbuf \<longrightarrow>
            msm_iommu_meta_lookup (iommu_root st') b' = msm_iommu_meta_lookup (iommu_root st) b'"
    by (simp add: lk)
  from r r' inner rest show ?thesis by blast
qed

subsection \<open>A map call that creates the mapping\<close>

lemma dma_map_retry_Some:
  "dma_map_retry d sg n di attrs rs tr = Some (sg', rest, tr') \<Longrightarrow>
   \<exists>k a l. sg' = sg\<lparr>sg_dma_address := a, sg_dma_length := l\<rparr> \<and>
           rs = replicate k Retryable_failure @ Mapped a l # rest \<and>
           tr' = tr @ replicate k (Ev_dma_map_sg_attrs d n di attrs Retryable_failure) @
                 [Ev_dma_map_sg_attrs d n di attrs (Mapped a l)]"
proof (induction d sg n di attrs rs tr rule: dma_map_retry.induct)
  case (1 d sg n di attrs tr)
  then show ?case by simp
next
  case (2 d sg n di attrs rs tr)
  then obtain k a l where
    "sg' = sg\<lparr>sg_dma_address := a, sg_dma_length := l\<rparr>"
    "rs = replicate k Retryable_failure @ Mapped a l # rest"
    "tr' = (tr @ [Ev_dma_map_sg_attrs d n di attrs Retryable_failure]) @
           replicate k (Ev_dma_map_sg_attrs d n di attrs Retryable_failure) @
           [Ev_dma_map_sg_attrs d n di attrs (Mapped a l)]"
    by auto
  then show ?case
    by (intro exI [of _ "Suc k"] exI [of _ a] exI [of _ l]) simp
next
  case (3 d sg n di attrs a l rs tr)
  then show ?case
    by (intro exI [of _ 0] exI [of _ a] exI [of _ l]) auto
qed

lemma scatterlist_copy:
  "\<lparr>sg_page_link = sg_page_link s, sg_offset = sg_offset s, sg_length = sg_length s,
    sg_dma_address = sg_dma_address s, sg_dma_length = sg_dma_length s\<rparr> = (s :: scatterlist)"
  by (cases s) simp

lemma map_miss_Some:
  assumes "map_miss st d sg n di b attrs not_lazy = Some (st', sg', r)"
  shows "\<exists>mp. r = n \<and> map_dev mp = d \<and> map_meta mp = b \<and> map_sgl mp = sg' \<and> map_dir mp = di \<and>
              map_nents mp = n \<and> map_refcount mp = word_of_int (2 - not_lazy) \<and>
              iommu_root st' = meta_update b (\<lambda>m. msm_iommu_map_add m mp) (iommu_root st) \<and>
              (\<exists>k a l. sg' = sg\<lparr>sg_dma_address := a, sg_dma_length := l\<rparr> \<and>
                 trace st' = trace st @
                   replicate k (Ev_dma_map_sg_attrs d n di attrs Retryable_failure) @
                   [Ev_dma_map_sg_attrs d n di attrs (Mapped a l)])"
proof -
  from assms obtain ks rs tr where
    k: "kmalloc_retry (kmalloc_replies st) = Some ks" and
    dm: "dma_map_retry d sg n di attrs (dma_map_replies st) (trace st) = Some (sg', rs, tr)" and
    st': "st' = st\<lparr>iommu_root := meta_update b
              (\<lambda>m. msm_iommu_map_add m
                 \<lparr>map_dev = d, map_meta = b, map_sgl = sg', map_dir = di, map_nents = n,
                  map_refcount = word_of_int (2 - not_lazy)\<rparr>) (iommu_root st),
            trace := tr, kmalloc_replies := ks, dma_map_replies := rs\<rparr>" and
    r: "r = n"
    by (auto simp: map_miss_def Let_def scatterlist_copy split: option.splits)
  from dma_map_retry_Some [OF dm] obtain k a l where
    "sg' = sg\<lparr>sg_dma_address := a, sg_dma_length := l\<rparr>"
    "tr = trace st @ replicate k (Ev_dma_map_sg_attrs d n di attrs Retryable_failure) @
          [Ev_dma_map_sg_attrs d n di attrs (Mapped a l)]"
    by blast
  with st' r show ?thesis
    by (intro exI [of _ "\<lparr>map_dev = d, map_meta = b, map_sgl = sg', map_dir = di, map_nents = n,
                  map_refcount = word_of_int (2 - not_lazy)\<rparr>"]) auto
qed

lemma map_miss_returns:
  assumes "Suc 0 \<le> length (filter id (kmalloc_replies st))"
    and "list_ex (\<lambda>r. r \<noteq> Retryable_failure) (dma_map_replies st)"
  shows "\<exists>st' sg'. map_miss st d sg n di b attrs not_lazy = Some (st', sg', n)"
proof -
  from kmalloc_retry_returns [OF assms(1)] obtain ks where
    "kmalloc_retry (kmalloc_replies st) = Some ks" by blast
  moreover from dma_map_retry_returns [OF assms(2)] obtain a l rs tr where
    "dma_map_retry d sg n di attrs (dma_map_replies st) (trace st) =
       Some (sg\<lparr>sg_dma_address := a, sg_dma_length := l\<rparr>, rs, tr)" by blast
  ultimately show ?thesis
    by (simp add: map_miss_def Let_def)
qed

text \<open>The three ways through \<open>msm_dma_map_sg_attrs\<close>.\<close>

lemma map_with_meta_without_map:
  assumes "msm_iommu_meta_lookup (iommu_root st) (priv dbuf) = Some m"
    and "msm_iommu_map_lookup m d = None"
  shows "msm_dma_map_sg_attrs coh st d sg n di dbuf attrs =
     map_miss (st\<lparr>iommu_root := meta_update (priv dbuf)
                                   (\<lambda>m. m\<lparr>meta_refcount := meta_refcount m + 1\<rparr>) (iommu_root st)\<rparr>)
       d sg n di (priv dbuf) attrs (dma_get_attr DMA_ATTR_NO_DELAYED_UNMAP attrs)"
  using assms by (simp add: msm_dma_map_sg_attrs_def Let_def)

lemma map_without_meta:
  assumes "msm_iommu_meta_lookup (iommu_root st) (priv dbuf) = None"
  shows "msm_dma_map_sg_attrs coh st d sg n di dbuf attrs =
     (case kmalloc_retry (kmalloc_replies st) of
        None \<Rightarrow> None
      | Some ks \<Rightarrow>
          map_miss (st\<lparr>iommu_root :=
                          msm_iommu_meta_add
                            \<lparr>meta_maps = [],
                             meta_refcount =
                               word_of_int (2 - dma_get_attr DMA_ATTR_NO_DELAYED_UNMAP attrs),
                             meta_buffer = priv dbuf\<rparr> (iommu_root st),
                        kmalloc_replies := ks\<rparr>)
            d sg n di (priv dbuf) attrs (dma_get_attr DMA_ATTR_NO_DELAYED_UNMAP attrs))"
  using assms by (simp add: msm_dma_map_sg_attrs_def Let_def split: option.splits)

text \<open>What a created mapping looks like in the state that the call returns.\<close>

lemma map_creates_in_meta:
  assumes "msm_iommu_meta_lookup (iommu_root st) (priv dbuf) = Some m"
    and "msm_iommu_map_lookup m d = None"
    and "msm_dma_map_sg_attrs coh st d sg n di dbuf attrs = Some (st', sg', r)"
  shows "\<exists>mp. r = n \<and> map_dev mp = d \<and> map_sgl mp = sg' \<and>
      map_refcount mp = word_of_int (2 - dma_get_attr DMA_ATTR_NO_DELAYED_UNMAP attrs) \<and>
      (\<forall>b'. msm_iommu_meta_lookup (iommu_root st') b' =
         (if b' = priv dbuf
          then Some (m\<lparr>meta_refcount := meta_refcount m + 1, meta_maps := mp # meta_maps m\<rparr>)
          else msm_iommu_meta_lookup (iommu_root st) b'))"
proof -
  from assms(3) [unfolded map_with_meta_without_map [OF assms(1,2)]]
  obtain mp where mp: "r = n" "map_dev mp = d" "map_sgl mp = sg'"
      "map_refcount mp = word_of_int (2 - dma_get_attr DMA_ATTR_NO_DELAYED_UNMAP attrs)"
      "iommu_root st' = meta_update (priv dbuf) (\<lambda>m. msm_iommu_map_add m mp)
         (meta_update (priv dbuf) (\<lambda>m. m\<lparr>meta_refcount := meta_refcount m + 1\<rparr>) (iommu_root st))"
    by (auto dest!: map_miss_Some)
  have "\<forall>b'. msm_iommu_meta_lookup (iommu_root st') b' =
         (if b' = priv dbuf
          then Some (m\<lparr>meta_refcount := meta_refcount m + 1, meta_maps := mp # meta_maps m\<rparr>)
          else msm_iommu_meta_lookup (iommu_root st) b')"
    by (simp add: mp(5) meta_update_twice lookup_meta_update msm_iommu_map_add_def assms(1))
  with mp(1-4) show ?thesis by blast
qed

lemma map_creates_meta:
  assumes "msm_iommu_meta_lookup (iommu_root st) (priv dbuf) = None"
    and "msm_dma_map_sg_attrs coh st d sg n di dbuf attrs = Some (st', sg', r)"
  shows "\<exists>mp. r = n \<and> map_dev mp = d \<and> map_sgl mp = sg' \<and>
      map_refcount mp = word_of_int (2 - dma_get_attr DMA_ATTR_NO_DELAYED_UNMAP attrs) \<and>
      (\<forall>b'. msm_iommu_meta_lookup (iommu_root st') b' =
         (if b' = priv dbuf
          then Some \<lparr>meta_maps = [mp],
                     meta_refcount = word_of_int (2 - dma_get_attr DMA_ATTR_NO_DELAYED_UNMAP attrs),
                     meta_buffer = priv dbuf\<rparr>
          else msm_iommu_meta_lookup (iommu_root st) b'))"
proof -
  let ?new = "\<lparr>meta_maps = [],
               meta_refcount = word_of_int (2 - dma_get_attr DMA_ATTR_NO_DELAYED_UNMAP attrs),
               meta_buffer = priv dbuf\<rparr>"
  from assms(2) [unfolded map_without_meta [OF assms(1)]]
  obtain mp where mp: "r = n" "map_dev mp = d" "map_sgl mp = sg'"
      "map_refcount mp = word_of_int (2 - dma_get_attr DMA_ATTR_NO_DELAYED_UNMAP attrs)"
      "iommu_root st' = meta_update (priv dbuf) (\<lambda>m. msm_iommu_map_add m mp)
         (msm_iommu_meta_add ?new (iommu_root st))"
    by (auto split: option.splits dest!: map_miss_Some)
  have "\<forall>b'. msm_iommu_meta_lookup (iommu_root st') b' =
         (if b' = priv dbuf
          then Some (?new\<lparr>meta_maps := [mp]\<rparr>)
          else msm_iommu_meta_lookup (iommu_root st) b')"
    using assms(1)
    by (simp add: mp(5) lookup_meta_update lookup_meta_add msm_iommu_map_add_def)
  with mp(1-4) show ?thesis by auto
qed

text \<open>After any map call that returns, the mapping is cached with what the call returned.\<close>

lemma map_caches:
  assumes "msm_dma_map_sg_attrs coh st d sg n di dbuf attrs = Some (st', sg', r)"
  shows "r = n \<and> (\<exists>mp. cached_map st' (priv dbuf) d = Some mp \<and>
           sg_dma_address (map_sgl mp) = sg_dma_address sg' \<and>
           sg_dma_length (map_sgl mp) = sg_dma_length sg')"
proof (cases "msm_iommu_meta_lookup (iommu_root st) (priv dbuf)")
  case None
  from map_creates_meta [OF None assms] show ?thesis
    by (auto simp: cached_map_def msm_iommu_map_lookup_def)
next
  case (Some m)
  show ?thesis
  proof (cases "msm_iommu_map_lookup m d")
    case None
    from map_creates_in_meta [OF Some None assms] show ?thesis
      by (auto simp: cached_map_def msm_iommu_map_lookup_def)
  next
    case (Some mp)
    note hit = \<open>msm_iommu_meta_lookup (iommu_root st) (priv dbuf) = Some m\<close> Some
    from assms [unfolded map_hit_eq [OF hit]] map_hit_lookup [OF hit assms, of "priv dbuf"] Some
    show ?thesis
      by (auto simp: cached_map_def msm_iommu_map_lookup_def map_lookup_update)
  qed
qed

subsection \<open>The concrete run, evaluated\<close>

lemma ex_map_eager: "msm_dma_map_sg_attrs no_device_coherent ex_start 1 ex_sg 1 DMA_TO_DEVICE ex_buf
     (Some [DMA_ATTR_NO_DELAYED_UNMAP]) =
   Some (ex_cache (Some [DMA_ATTR_NO_DELAYED_UNMAP]) 1 1, ex_sg_mapped, 1)"
  by (simp add: ex_defs msm_dma_map_sg_attrs_def map_miss_def msm_iommu_meta_lookup_def
      dma_get_attr_def msm_iommu_map_add_def)

lemma ex_map_lazy: "msm_dma_map_sg_attrs no_device_coherent ex_start 1 ex_sg 1 DMA_TO_DEVICE ex_buf None =
   Some (ex_cache None 2 2, ex_sg_mapped, 1)"
  by (simp add: ex_defs msm_dma_map_sg_attrs_def map_miss_def msm_iommu_meta_lookup_def
      dma_get_attr_def msm_iommu_map_add_def)

text \<open>
  Device 2 has no mapping of buffer 7 while device 1 has one: unmapping for device 2
  changes nothing.
\<close>

theorem unmap_sg_without_mapping_is_noop_witness:
  "cached_map (ex_cache None 2 2) (priv ex_buf) 2 = None \<and>
   msm_dma_unmap_sg (ex_cache None 2 2) 2 ex_buf = ex_cache None 2 2"
proof -
  have h: "cached_map (ex_cache None 2 2) (priv ex_buf) 2 = None"
    by (simp add: ex_defs cached_map_def msm_iommu_meta_lookup_def msm_iommu_map_lookup_def)
  from h unmap_sg_without_mapping_is_noop [OF h] show ?thesis by simp
qed

subsection \<open>Claims about the cache hit\<close>

text \<open>
  In the concrete run, a second map call with the attribute set finds the meta with count
  2 and the map with count 2, and leaves them at 3 and 3, as a call without attributes
  does.
\<close>

theorem cache_hit_increments_both_refcounts_witness:
  "msm_iommu_meta_lookup (iommu_root (ex_cache None 2 2)) (priv ex_buf) = Some (ex_meta 2 2) \<and>
   msm_iommu_map_lookup (ex_meta 2 2) 1 = Some (ex_map 2) \<and>
   (\<exists>st' sg'.
      msm_dma_map_sg_attrs no_device_coherent (ex_cache None 2 2) 1 ex_sg 1 DMA_TO_DEVICE ex_buf
        (Some [DMA_ATTR_NO_DELAYED_UNMAP]) = Some (st', sg', 1) \<and>
      msm_dma_map_sg_attrs no_device_coherent (ex_cache None 2 2) 1 ex_sg 1 DMA_TO_DEVICE ex_buf
        None = Some (st', sg', 1) \<and>
      (\<exists>m'. msm_iommu_meta_lookup (iommu_root st') 7 = Some m' \<and> meta_refcount m' = 3 \<and>
            msm_iommu_map_lookup m' 1 = Some (ex_map 3)))"
proof -
  have h1: "msm_iommu_meta_lookup (iommu_root (ex_cache None 2 2)) (priv ex_buf) = Some (ex_meta 2 2)"
    by (simp add: ex_defs msm_iommu_meta_lookup_def)
  have h2: "msm_iommu_map_lookup (ex_meta 2 2) 1 = Some (ex_map 2)"
    by (simp add: ex_defs msm_iommu_map_lookup_def)
  have m: "meta_refcount (ex_meta 2 2) + 1 = 3" "priv ex_buf = 7"
    "ex_map 2\<lparr>map_refcount := map_refcount (ex_map 2) + 1\<rparr> = ex_map 3"
    by (simp_all add: ex_defs)
  from cache_hit_increments_both_refcounts [OF h1 h2,
      of no_device_coherent ex_sg 1 DMA_TO_DEVICE "Some [DMA_ATTR_NO_DELAYED_UNMAP]" None]
  have "\<exists>st' sg'.
      msm_dma_map_sg_attrs no_device_coherent (ex_cache None 2 2) 1 ex_sg 1 DMA_TO_DEVICE ex_buf
        (Some [DMA_ATTR_NO_DELAYED_UNMAP]) = Some (st', sg', 1) \<and>
      msm_dma_map_sg_attrs no_device_coherent (ex_cache None 2 2) 1 ex_sg 1 DMA_TO_DEVICE ex_buf
        None = Some (st', sg', 1) \<and>
      (\<exists>m'. msm_iommu_meta_lookup (iommu_root st') 7 = Some m' \<and> meta_refcount m' = 3 \<and>
            msm_iommu_map_lookup m' 1 = Some (ex_map 3))"
    unfolding m by blast
  with h1 h2 show ?thesis by blast
qed

lemma lookup_member:
  "distinct (map meta_buffer root) \<Longrightarrow> m \<in> set root \<Longrightarrow>
   msm_iommu_meta_lookup root (meta_buffer m) = Some m"
proof (induction root)
  case Nil
  then show ?case by simp
next
  case (Cons x xs)
  show ?case
  proof (cases "m = x")
    case True
    then show ?thesis by (simp add: msm_iommu_meta_lookup_def)
  next
    case False
    with Cons.prems have "m \<in> set xs" "meta_buffer x \<noteq> meta_buffer m" by auto
    with Cons show ?thesis by (simp add: msm_iommu_meta_lookup_def)
  qed
qed

lemma map_lookup_member:
  "distinct (map map_dev mps) \<Longrightarrow> mp \<in> set mps \<Longrightarrow>
   find (\<lambda>p. map_dev p = map_dev mp) mps = Some mp"
proof (induction mps)
  case Nil
  then show ?case by simp
next
  case (Cons x xs)
  show ?case
  proof (cases "mp = x")
    case True
    then show ?thesis by simp
  next
    case False
    with Cons.prems have "mp \<in> set xs" "map_dev x \<noteq> map_dev mp" by auto
    with Cons show ?thesis by simp
  qed
qed

text \<open>
  C5. Let the tree be in key order with one map per device in each meta, let the meta of
  the buffer be in the tree and let it hold a map for the device. Then a map call for
  that buffer and device returns; it returns the count \<open>nents\<close> it was given; it leaves
  in the caller's scatterlist the device address and the length stored in that map, the
  one of this device and this buffer, not those of another map; and it calls nothing
  outside the cache but the barrier of a coherent device: no call of
  \<^verbatim>\<open>dma_map_sg_attrs\<close>, no allocation. The map that the lookups of the code find for a
  buffer and a device is a map of that device in a meta of that buffer. After any map
  call that has returned, the stored address and length are the ones that call returned,
  so a second call for the same buffer and device returns the same pair.
\<close>

theorem cache_hit_returns_cached_mapping:
  "(index_sorted st \<and> maps_unique st \<and> m \<in> set (iommu_root st) \<and> meta_buffer m = priv dbuf \<and>
    mp \<in> set (meta_maps m) \<and> map_dev mp = d \<longrightarrow>
      (\<exists>st'. msm_dma_map_sg_attrs coh st d sg n di dbuf attrs =
                Some (st', sg\<lparr>sg_dma_address := sg_dma_address (map_sgl mp),
                               sg_dma_length := sg_dma_length (map_sgl mp)\<rparr>, n) \<and>
             trace st' = trace st @ (if coh d then [Ev_dmb] else []) \<and>
             dma_map_replies st' = dma_map_replies st \<and>
             kmalloc_replies st' = kmalloc_replies st)) \<and>
   (cached_map st (priv dbuf) d = Some mp \<longrightarrow>
      map_dev mp = d \<and>
      (\<exists>m' \<in> set (iommu_root st). meta_buffer m' = priv dbuf \<and> mp \<in> set (meta_maps m')) \<and>
      (\<exists>st'. msm_dma_map_sg_attrs coh st d sg n di dbuf attrs =
                Some (st', sg\<lparr>sg_dma_address := sg_dma_address (map_sgl mp),
                               sg_dma_length := sg_dma_length (map_sgl mp)\<rparr>, n) \<and>
             trace st' = trace st @ (if coh d then [Ev_dmb] else []) \<and>
             dma_map_replies st' = dma_map_replies st \<and>
             kmalloc_replies st' = kmalloc_replies st)) \<and>
   (msm_dma_map_sg_attrs coh stp d sgp np dip dbuf attrsp = Some (st, sgr, rr) \<longrightarrow>
      (\<exists>st'. msm_dma_map_sg_attrs coh st d sg n di dbuf attrs =
                Some (st', sg\<lparr>sg_dma_address := sg_dma_address sgr,
                               sg_dma_length := sg_dma_length sgr\<rparr>, n) \<and>
             trace st' = trace st @ (if coh d then [Ev_dmb] else []) \<and>
             dma_map_replies st' = dma_map_replies st \<and>
             kmalloc_replies st' = kmalloc_replies st))"
proof -
  have hit: "\<exists>st'. msm_dma_map_sg_attrs coh st d sg n di dbuf attrs =
                Some (st', sg\<lparr>sg_dma_address := sg_dma_address (map_sgl p),
                               sg_dma_length := sg_dma_length (map_sgl p)\<rparr>, n) \<and>
             trace st' = trace st @ (if coh d then [Ev_dmb] else []) \<and>
             dma_map_replies st' = dma_map_replies st \<and>
             kmalloc_replies st' = kmalloc_replies st"
    if "cached_map st (priv dbuf) d = Some p" for p
  proof -
    from that obtain m where
      "msm_iommu_meta_lookup (iommu_root st) (priv dbuf) = Some m" "msm_iommu_map_lookup m d = Some p"
      by (auto simp: cached_map_Some)
    from map_hit_eq [OF this] show ?thesis by simp
  qed
  have found: "cached_map st (priv dbuf) d = Some mp"
    if "index_sorted st \<and> maps_unique st \<and> m \<in> set (iommu_root st) \<and> meta_buffer m = priv dbuf \<and>
        mp \<in> set (meta_maps m) \<and> map_dev mp = d"
  proof -
    from that have s: "index_sorted st" and u: "maps_unique st" and m: "m \<in> set (iommu_root st)"
      and b: "meta_buffer m = priv dbuf" and p: "mp \<in> set (meta_maps m)" and d: "map_dev mp = d"
      by simp_all
    from s have "distinct (map meta_buffer (iommu_root st))"
      by (simp add: index_sorted_def strict_sorted_iff)
    from lookup_member [OF this m]
    have l: "msm_iommu_meta_lookup (iommu_root st) (priv dbuf) = Some m"
      by (simp add: b)
    from u m have "distinct (map map_dev (meta_maps m))"
      by (simp add: maps_unique_def list_all_iff)
    from map_lookup_member [OF this p] have "msm_iommu_map_lookup m d = Some mp"
      by (simp add: msm_iommu_map_lookup_def d)
    with l show ?thesis by (simp add: cached_map_def)
  qed
  have owner: "map_dev mp = d \<and>
      (\<exists>m' \<in> set (iommu_root st). meta_buffer m' = priv dbuf \<and> mp \<in> set (meta_maps m'))"
    if "cached_map st (priv dbuf) d = Some mp"
  proof -
    from that obtain m' where
      l: "msm_iommu_meta_lookup (iommu_root st) (priv dbuf) = Some m'"
      and p: "msm_iommu_map_lookup m' d = Some mp"
      by (auto simp: cached_map_Some)
    from p have "map_dev mp = d" "mp \<in> set (meta_maps m')"
      by (auto simp: msm_iommu_map_lookup_def find_Some_iff)
    with lookup_Some_buffer [OF l] show ?thesis by blast
  qed
  have again: "\<exists>st'. msm_dma_map_sg_attrs coh st d sg n di dbuf attrs =
                Some (st', sg\<lparr>sg_dma_address := sg_dma_address sgr,
                               sg_dma_length := sg_dma_length sgr\<rparr>, n) \<and>
             trace st' = trace st @ (if coh d then [Ev_dmb] else []) \<and>
             dma_map_replies st' = dma_map_replies st \<and>
             kmalloc_replies st' = kmalloc_replies st"
    if "msm_dma_map_sg_attrs coh stp d sgp np dip dbuf attrsp = Some (st, sgr, rr)"
  proof -
    from map_caches [OF that] obtain p where
      p: "cached_map st (priv dbuf) d = Some p"
         "sg_dma_address (map_sgl p) = sg_dma_address sgr"
         "sg_dma_length (map_sgl p) = sg_dma_length sgr"
      by blast
    from hit [OF p(1)] show ?thesis by (simp add: p(2,3))
  qed
  show ?thesis
  proof (intro conjI impI)
    assume "index_sorted st \<and> maps_unique st \<and> m \<in> set (iommu_root st) \<and>
        meta_buffer m = priv dbuf \<and> mp \<in> set (meta_maps m) \<and> map_dev mp = d"
    then have "cached_map st (priv dbuf) d = Some mp" by (rule found)
    then show "\<exists>st'. msm_dma_map_sg_attrs coh st d sg n di dbuf attrs =
                Some (st', sg\<lparr>sg_dma_address := sg_dma_address (map_sgl mp),
                               sg_dma_length := sg_dma_length (map_sgl mp)\<rparr>, n) \<and>
             trace st' = trace st @ (if coh d then [Ev_dmb] else []) \<and>
             dma_map_replies st' = dma_map_replies st \<and>
             kmalloc_replies st' = kmalloc_replies st"
      by (rule hit)
  next
    assume c: "cached_map st (priv dbuf) d = Some mp"
    from owner [OF c] show "map_dev mp = d" by simp
    from owner [OF c]
    show "\<exists>m' \<in> set (iommu_root st). meta_buffer m' = priv dbuf \<and> mp \<in> set (meta_maps m')"
      by simp
    from c show "\<exists>st'. msm_dma_map_sg_attrs coh st d sg n di dbuf attrs =
                Some (st', sg\<lparr>sg_dma_address := sg_dma_address (map_sgl mp),
                               sg_dma_length := sg_dma_length (map_sgl mp)\<rparr>, n) \<and>
             trace st' = trace st @ (if coh d then [Ev_dmb] else []) \<and>
             dma_map_replies st' = dma_map_replies st \<and>
             kmalloc_replies st' = kmalloc_replies st"
      by (rule hit)
  next
    assume "msm_dma_map_sg_attrs coh stp d sgp np dip dbuf attrsp = Some (st, sgr, rr)"
    then show "\<exists>st'. msm_dma_map_sg_attrs coh st d sg n di dbuf attrs =
                Some (st', sg\<lparr>sg_dma_address := sg_dma_address sgr,
                               sg_dma_length := sg_dma_length sgr\<rparr>, n) \<and>
             trace st' = trace st @ (if coh d then [Ev_dmb] else []) \<and>
             dma_map_replies st' = dma_map_replies st \<and>
             kmalloc_replies st' = kmalloc_replies st"
      by (rule again)
  qed
qed

text \<open>
  In the third state of the concrete run, buffer 7 is the second meta of the tree and its
  list holds the map of device 2, at address 8192, before the map of device 1, at address
  4096. A map call of device 1 for buffer 7 returns address 4096, and one of device 2
  returns address 8192; neither adds to the trace. In the first run, the call that maps
  for real returns address 4096 and the next call, for 3 segments in the other direction,
  returns 3 and the address 4096 again.
\<close>

theorem cache_hit_returns_cached_mapping_witness:
  "(index_sorted ex_two_devices \<and> maps_unique ex_two_devices \<and>
    ex_meta7 \<in> set (iommu_root ex_two_devices) \<and> meta_buffer ex_meta7 = priv ex_buf \<and>
    ex_map_at 1 7 2 4096 \<in> set (meta_maps ex_meta7) \<and> map_dev (ex_map_at 1 7 2 4096) = 1 \<and>
    ex_map_at 2 7 2 8192 \<in> set (meta_maps ex_meta7) \<and> map_dev (ex_map_at 2 7 2 8192) = 2) \<and>
   (\<exists>st'. msm_dma_map_sg_attrs no_device_coherent ex_two_devices 1 ex_sg 3 DMA_FROM_DEVICE ex_buf
             None = Some (st', ex_sg\<lparr>sg_dma_address := 4096, sg_dma_length := 64\<rparr>, 3) \<and>
          trace st' = trace ex_two_devices) \<and>
   (\<exists>st'. msm_dma_map_sg_attrs no_device_coherent ex_two_devices 2 ex_sg 3 DMA_FROM_DEVICE ex_buf
             None = Some (st', ex_sg\<lparr>sg_dma_address := 8192, sg_dma_length := 64\<rparr>, 3) \<and>
          trace st' = trace ex_two_devices) \<and>
   cached_map ex_two_devices (priv ex_buf) 1 = Some (ex_map_at 1 7 2 4096) \<and>
   msm_dma_map_sg_attrs no_device_coherent ex_start 1 ex_sg 1 DMA_TO_DEVICE ex_buf None =
     Some (ex_cache None 2 2, ex_sg_mapped, 1) \<and>
   (\<exists>st'. msm_dma_map_sg_attrs no_device_coherent (ex_cache None 2 2) 1 ex_sg 3 DMA_FROM_DEVICE
             ex_buf None = Some (st', ex_sg_mapped, 3) \<and>
          trace st' = trace (ex_cache None 2 2))"
proof -
  have h: "index_sorted ex_two_devices \<and> maps_unique ex_two_devices \<and>
    ex_meta7 \<in> set (iommu_root ex_two_devices) \<and> meta_buffer ex_meta7 = priv ex_buf \<and>
    ex_map_at 1 7 2 4096 \<in> set (meta_maps ex_meta7) \<and> map_dev (ex_map_at 1 7 2 4096) = 1"
    and h': "index_sorted ex_two_devices \<and> maps_unique ex_two_devices \<and>
    ex_meta7 \<in> set (iommu_root ex_two_devices) \<and> meta_buffer ex_meta7 = priv ex_buf \<and>
    ex_map_at 2 7 2 8192 \<in> set (meta_maps ex_meta7) \<and> map_dev (ex_map_at 2 7 2 8192) = 2"
    by (simp_all add: ex_defs index_sorted_def maps_unique_def)
  have c: "cached_map ex_two_devices (priv ex_buf) 1 = Some (ex_map_at 1 7 2 4096)"
    by (simp add: ex_defs cached_map_def msm_iommu_meta_lookup_def msm_iommu_map_lookup_def)
  have f: "msm_dma_map_sg_attrs no_device_coherent ex_start 1 ex_sg 1 DMA_TO_DEVICE ex_buf None =
     Some (ex_cache None 2 2, ex_sg_mapped, 1)"
    by (rule ex_map_lazy)
  have a1: "sg_dma_address (map_sgl (ex_map_at d b rc a)) = a"
    "sg_dma_length (map_sgl (ex_map_at d b rc a)) = 64" for d b rc a
    by (simp_all add: ex_defs)
  have nc: "(if no_device_coherent d then [Ev_dmb] else []) = []" for d
    by (simp add: no_device_coherent_def)
  have sg: "ex_sg\<lparr>sg_dma_address := sg_dma_address ex_sg_mapped,
                  sg_dma_length := sg_dma_length ex_sg_mapped\<rparr> = ex_sg_mapped"
    by (simp add: ex_defs)
  note t1 = cache_hit_returns_cached_mapping [where st = ex_two_devices and m = ex_meta7
      and mp = "ex_map_at 1 7 2 4096" and d = 1 and dbuf = ex_buf and coh = no_device_coherent
      and sg = ex_sg and n = 3 and di = DMA_FROM_DEVICE and attrs = None]
  note t2 = cache_hit_returns_cached_mapping [where st = ex_two_devices and m = ex_meta7
      and mp = "ex_map_at 2 7 2 8192" and d = 2 and dbuf = ex_buf and coh = no_device_coherent
      and sg = ex_sg and n = 3 and di = DMA_FROM_DEVICE and attrs = None]
  note t3 = cache_hit_returns_cached_mapping [where st = "ex_cache None 2 2" and d = 1
      and dbuf = ex_buf and coh = no_device_coherent and sg = ex_sg and n = 3
      and di = DMA_FROM_DEVICE and attrs = None and stp = ex_start and sgp = ex_sg and np = 1
      and dip = DMA_TO_DEVICE and attrsp = None and sgr = ex_sg_mapped and rr = 1]
  from t1 [THEN conjunct1, rule_format, OF h]
  have r1: "\<exists>st'. msm_dma_map_sg_attrs no_device_coherent ex_two_devices 1 ex_sg 3 DMA_FROM_DEVICE
             ex_buf None = Some (st', ex_sg\<lparr>sg_dma_address := 4096, sg_dma_length := 64\<rparr>, 3) \<and>
          trace st' = trace ex_two_devices"
    unfolding a1 nc append_Nil2 by blast
  from t2 [THEN conjunct1, rule_format, OF h']
  have r2: "\<exists>st'. msm_dma_map_sg_attrs no_device_coherent ex_two_devices 2 ex_sg 3 DMA_FROM_DEVICE
             ex_buf None = Some (st', ex_sg\<lparr>sg_dma_address := 8192, sg_dma_length := 64\<rparr>, 3) \<and>
          trace st' = trace ex_two_devices"
    unfolding a1 nc append_Nil2 by blast
  from t1 [THEN conjunct2, THEN conjunct1, rule_format, OF c]
  have r3: "map_dev (ex_map_at 1 7 2 4096) = 1" by simp
  from t3 [THEN conjunct2, THEN conjunct2, rule_format, OF f]
  have r4: "\<exists>st'. msm_dma_map_sg_attrs no_device_coherent (ex_cache None 2 2) 1 ex_sg 3
             DMA_FROM_DEVICE ex_buf None = Some (st', ex_sg_mapped, 3) \<and>
          trace st' = trace (ex_cache None 2 2)"
    unfolding sg nc append_Nil2 by blast
  from h h' r1 r2 c f r4 show ?thesis by blast
qed

subsection \<open>The sweep for one device\<close>

lemma unmap_all_maps_eq:
  "unmap_all_maps d mps ul ret =
     (sweep_kept d mps, ul @ sweep_released d mps,
      if sweep_fails d mps then - EINVAL else ret)"
  by (induction mps arbitrary: ul ret)
     (auto simp: sweep_kept_def sweep_released_def sweep_fails_def Let_def)

lemma unmap_all_metas_eq:
  "unmap_all_metas d root ul ret =
     (map (\<lambda>m. m\<lparr>meta_maps := sweep_kept d (meta_maps m)\<rparr>) root,
      ul @ sweep_released d (concat (map meta_maps root)),
      if sweep_fails d (concat (map meta_maps root)) then - EINVAL else ret)"
proof (induction root arbitrary: ul ret)
  case Nil
  then show ?case by (simp add: sweep_released_def sweep_fails_def)
next
  case (Cons m ms)
  show ?case
    by (simp add: Cons.IH unmap_all_maps_eq)
       (simp add: sweep_released_def sweep_fails_def)
qed

text \<open>
  C6. \<open>msm_dma_unmap_all_for_dev\<close> returns a status other than 0, namely
  \<^verbatim>\<open>-EINVAL\<close>, exactly when some map of the device, in some meta of the tree, has a
  count that one decrement does not bring to 0. Whether or not there is such a map, the
  call visits every meta: in each of them the maps of other devices stay as they are, the
  maps of the device whose count does not reach 0 stay with the count one lower, and the
  maps of the device whose count reaches 0 leave the list, are unmapped by
  \<^verbatim>\<open>dma_unmap_sg\<close> and are freed, in the order of the tree and of the lists.
\<close>

theorem unmap_all_for_dev_reports_and_continues:
  "msm_dma_unmap_all_for_dev st d =
     (st\<lparr>iommu_root := map (\<lambda>m. m\<lparr>meta_maps := sweep_kept d (meta_maps m)\<rparr>) (iommu_root st),
         trace := trace st @
           concat (map unmap_and_free (sweep_released d (concat (map meta_maps (iommu_root st)))))\<rparr>,
      if sweep_fails d (concat (map meta_maps (iommu_root st))) then - EINVAL else 0) \<and>
   (snd (msm_dma_unmap_all_for_dev st d) \<noteq> 0 \<longleftrightarrow>
      (\<exists>m \<in> set (iommu_root st). \<exists>p \<in> set (meta_maps m).
          map_dev p = d \<and> map_refcount p - 1 \<noteq> 0))"
proof -
  have eq: "msm_dma_unmap_all_for_dev st d =
     (st\<lparr>iommu_root := map (\<lambda>m. m\<lparr>meta_maps := sweep_kept d (meta_maps m)\<rparr>) (iommu_root st),
         trace := trace st @
           concat (map unmap_and_free (sweep_released d (concat (map meta_maps (iommu_root st)))))\<rparr>,
      if sweep_fails d (concat (map meta_maps (iommu_root st))) then - EINVAL else 0)"
    by (simp add: msm_dma_unmap_all_for_dev_def unmap_all_metas_eq)
  have "sweep_fails d (concat (map meta_maps (iommu_root st))) \<longleftrightarrow>
      (\<exists>m \<in> set (iommu_root st). \<exists>p \<in> set (meta_maps m).
          map_dev p = d \<and> map_refcount p - 1 \<noteq> 0)"
    by (auto simp: sweep_fails_def list_ex_iff)
  then have "snd (msm_dma_unmap_all_for_dev st d) \<noteq> 0 \<longleftrightarrow>
      (\<exists>m \<in> set (iommu_root st). \<exists>p \<in> set (meta_maps m).
          map_dev p = d \<and> map_refcount p - 1 \<noteq> 0)"
    by (simp add: eq EINVAL_def)
  with eq show ?thesis by blast
qed

text \<open>
  In the second state the sweep for device 1 fails on buffer 3, where the count goes from
  2 to 1, and still goes on to buffer 7, whose map it unmaps and frees.
\<close>

theorem unmap_all_for_dev_reports_and_continues_witness:
  "sweep_fails 1 (concat (map meta_maps (iommu_root ex_shared))) \<and>
   (\<exists>m \<in> set (iommu_root ex_shared). \<exists>p \<in> set (meta_maps m).
       map_dev p = 1 \<and> map_refcount p - 1 \<noteq> 0) \<and>
   msm_dma_unmap_all_for_dev ex_shared 1 = (ex_shared_swept, - 22) \<and>
   snd (msm_dma_unmap_all_for_dev ex_shared 1) \<noteq> 0"
proof -
  have f: "sweep_fails 1 (concat (map meta_maps (iommu_root ex_shared)))"
    by (simp add: ex_defs sweep_fails_def)
  have k: "map (\<lambda>m. m\<lparr>meta_maps := sweep_kept 1 (meta_maps m)\<rparr>) (iommu_root ex_shared) =
      iommu_root ex_shared_swept"
    by (simp add: ex_defs sweep_kept_def)
  have r: "sweep_released 1 (concat (map meta_maps (iommu_root ex_shared))) = [ex_map_of 1 7 0]"
    by (simp add: ex_defs sweep_released_def)
  have t: "trace ex_shared @ concat (map unmap_and_free [ex_map_of 1 7 0]) = trace ex_shared_swept"
    by (simp add: ex_defs unmap_and_free_def)
  have s: "ex_shared\<lparr>iommu_root := iommu_root ex_shared_swept, trace := trace ex_shared_swept\<rparr> =
      ex_shared_swept"
    by (simp add: ex_defs)
  note sweep = unmap_all_for_dev_reports_and_continues [of ex_shared 1]
  from sweep [THEN conjunct1]
  have a: "msm_dma_unmap_all_for_dev ex_shared 1 = (ex_shared_swept, - 22)"
    unfolding k r t s using f by (simp add: EINVAL_def)
  have ex: "\<exists>m \<in> set (iommu_root ex_shared). \<exists>p \<in> set (meta_maps m).
       map_dev p = 1 \<and> map_refcount p - 1 \<noteq> 0"
    by (simp add: ex_defs)
  from sweep [THEN conjunct2] ex
  have b: "snd (msm_dma_unmap_all_for_dev ex_shared 1) \<noteq> 0"
    by blast
  from f ex a b show ?thesis by blast
qed

subsection \<open>One map per buffer and device\<close>













subsection \<open>The two halves of a map call\<close>







subsection \<open>The key order is kept\<close>

lemma index_sorted_distinct: "index_sorted st \<Longrightarrow> distinct (map meta_buffer (iommu_root st))"
  by (simp add: index_sorted_def strict_sorted_iff)

lemma index_sorted_meta_put: "index_sorted st \<Longrightarrow> index_sorted (msm_iommu_meta_put st b)"
  by (auto simp: index_sorted_def msm_iommu_meta_put_def Let_def keys_meta_update sorted_rb_erase
      rb_erase_meta_update split: option.splits)

lemma index_sorted_map_miss:
  "index_sorted st \<Longrightarrow> map_miss st d sg n di b attrs not_lazy = Some (st', sg', r) \<Longrightarrow>
   index_sorted st'"
  by (auto dest!: map_miss_Some simp: index_sorted_def keys_meta_update msm_iommu_map_add_def)

lemma index_sorted_map:
  assumes "index_sorted st"
    and "msm_dma_map_sg_attrs coh st d sg n di dbuf attrs = Some (st', sg', r)"
  shows "index_sorted st'"
proof (cases "msm_iommu_meta_lookup (iommu_root st) (priv dbuf)")
  case None
  let ?new = "\<lparr>meta_maps = [],
               meta_refcount = word_of_int (2 - dma_get_attr DMA_ATTR_NO_DELAYED_UNMAP attrs),
               meta_buffer = priv dbuf\<rparr>"
  from assms(2) [unfolded map_without_meta [OF None]] obtain ks where
    mm: "map_miss (st\<lparr>iommu_root := msm_iommu_meta_add ?new (iommu_root st), kmalloc_replies := ks\<rparr>)
            d sg n di (priv dbuf) attrs (dma_get_attr DMA_ATTR_NO_DELAYED_UNMAP attrs) =
          Some (st', sg', r)"
    by (auto split: option.splits)
  have "index_sorted (st\<lparr>iommu_root := msm_iommu_meta_add ?new (iommu_root st), kmalloc_replies := ks\<rparr>)"
    using assms(1) None by (simp add: index_sorted_def sorted_meta_add lookup_None_iff)
  then show ?thesis using mm by (rule index_sorted_map_miss)
next
  case (Some m)
  have inc: "index_sorted (st\<lparr>iommu_root := meta_update (priv dbuf)
                                   (\<lambda>m. m\<lparr>meta_refcount := meta_refcount m + 1\<rparr>) (iommu_root st)\<rparr>)"
    using assms(1) by (simp add: index_sorted_def keys_meta_update)
  show ?thesis
  proof (cases "msm_iommu_map_lookup m d")
    case None
    from inc assms(2) [unfolded map_with_meta_without_map [OF Some None]]
    show ?thesis by (rule index_sorted_map_miss)
  next
    case (Some mp)
    note hit = \<open>msm_iommu_meta_lookup (iommu_root st) (priv dbuf) = Some m\<close> Some
    from assms(2) [unfolded map_hit_eq [OF hit]] assms(1) show ?thesis
      by (auto simp: index_sorted_def keys_meta_update)
  qed
qed

lemma index_sorted_unmap_sg: "index_sorted st \<Longrightarrow> index_sorted (msm_dma_unmap_sg st d dbuf)"
  by (auto simp: msm_dma_unmap_sg_def Let_def index_sorted_def keys_meta_update
      split: option.splits intro!: index_sorted_meta_put [unfolded index_sorted_def])

lemma index_sorted_unmap_all:
  "index_sorted st \<Longrightarrow> index_sorted (fst (msm_dma_unmap_all_for_dev st d))"
  by (simp add: msm_dma_unmap_all_for_dev_def unmap_all_metas_eq index_sorted_def comp_def)

lemma index_sorted_buf_freed: "index_sorted st \<Longrightarrow> index_sorted (msm_dma_buf_freed st b)"
  by (auto simp: msm_dma_buf_freed_def Let_def index_sorted_def keys_meta_update
      split: option.splits intro!: index_sorted_meta_put [unfolded index_sorted_def])

subsection \<open>Releasing\<close>

lemma meta_put_lookup:
  assumes "index_sorted st" and "msm_iommu_meta_lookup (iommu_root st) b = Some m"
  shows "msm_iommu_meta_lookup (iommu_root (msm_iommu_meta_put st b)) b' =
           (if b' = b
            then (if meta_refcount m - 1 = 0 then None
                  else Some (m\<lparr>meta_refcount := meta_refcount m - 1\<rparr>))
            else msm_iommu_meta_lookup (iommu_root st) b')"
  using assms index_sorted_distinct [OF assms(1)]
  by (simp add: msm_iommu_meta_put_def Let_def lookup_meta_update lookup_rb_erase_same
      lookup_rb_erase_other rb_erase_meta_update)

lemma meta_put_trace:
  assumes "msm_iommu_meta_lookup (iommu_root st) b = Some m"
  shows "trace (msm_iommu_meta_put st b) =
           trace st @ (if meta_refcount m - 1 = 0
                       then [Ev_kfree_meta (m\<lparr>meta_refcount := meta_refcount m - 1\<rparr>)] else [])"
  using assms by (simp add: msm_iommu_meta_put_def Let_def)

lemma meta_put_env:
  "kmalloc_replies (msm_iommu_meta_put st b) = kmalloc_replies st \<and>
   dma_map_replies (msm_iommu_meta_put st b) = dma_map_replies st"
  by (simp add: msm_iommu_meta_put_def Let_def split: option.splits)

text \<open>The state in which \<open>msm_dma_unmap_sg\<close> calls \<open>msm_iommu_meta_put\<close>.\<close>

lemma unmap_sg_found:
  assumes "msm_iommu_meta_lookup (iommu_root st) (priv dbuf) = Some m"
    and "msm_iommu_map_lookup m d = Some mp"
  shows "msm_dma_unmap_sg st d dbuf =
     msm_iommu_meta_put
       (st\<lparr>iommu_root :=
             meta_update (priv dbuf)
               (\<lambda>m. m\<lparr>meta_maps :=
                        (if map_refcount mp - 1 = 0 then list_del d (meta_maps m)
                         else map_update d (\<lambda>p. p\<lparr>map_refcount := map_refcount p - 1\<rparr>)
                                (meta_maps m))\<rparr>)
               (iommu_root st),
           trace := trace st @
             (if map_refcount mp - 1 = 0
              then unmap_and_free (mp\<lparr>map_refcount := map_refcount mp - 1\<rparr>) else [])\<rparr>)
       (priv dbuf)"
  using assms by (simp add: msm_dma_unmap_sg_def Let_def)

lemma unmap_sg_lookup:
  assumes "index_sorted st"
    and "msm_iommu_meta_lookup (iommu_root st) (priv dbuf) = Some m"
    and "msm_iommu_map_lookup m d = Some mp"
  shows "msm_iommu_meta_lookup (iommu_root (msm_dma_unmap_sg st d dbuf)) b' =
           (if b' = priv dbuf
            then (if meta_refcount m - 1 = 0 then None
                  else Some (m\<lparr>meta_maps :=
                               (if map_refcount mp - 1 = 0 then list_del d (meta_maps m)
                                else map_update d (\<lambda>p. p\<lparr>map_refcount := map_refcount p - 1\<rparr>)
                                       (meta_maps m)),
                             meta_refcount := meta_refcount m - 1\<rparr>))
            else msm_iommu_meta_lookup (iommu_root st) b')"
proof -
  let ?f = "\<lambda>m. m\<lparr>meta_maps :=
                        (if map_refcount mp - 1 = 0 then list_del d (meta_maps m)
                         else map_update d (\<lambda>p. p\<lparr>map_refcount := map_refcount p - 1\<rparr>)
                                (meta_maps m))\<rparr>"
  let ?st1 = "st\<lparr>iommu_root := meta_update (priv dbuf) ?f (iommu_root st),
           trace := trace st @
             (if map_refcount mp - 1 = 0
              then unmap_and_free (mp\<lparr>map_refcount := map_refcount mp - 1\<rparr>) else [])\<rparr>"
  have s: "index_sorted ?st1"
    using assms(1) by (simp add: index_sorted_def keys_meta_update)
  have l: "msm_iommu_meta_lookup (iommu_root ?st1) (priv dbuf) = Some (?f m)"
    using assms(2) by (simp add: lookup_meta_update)
  have o: "msm_iommu_meta_lookup (iommu_root ?st1) b' = msm_iommu_meta_lookup (iommu_root st) b'"
    if "b' \<noteq> priv dbuf"
    using that by (simp add: lookup_meta_update)
  show ?thesis
    unfolding unmap_sg_found [OF assms(2,3)] meta_put_lookup [OF s l]
    using o by simp
qed

lemma unmap_sg_trace:
  assumes "msm_iommu_meta_lookup (iommu_root st) (priv dbuf) = Some m"
    and "msm_iommu_map_lookup m d = Some mp"
  shows "trace (msm_dma_unmap_sg st d dbuf) =
           trace st @
           (if map_refcount mp - 1 = 0
            then unmap_and_free (mp\<lparr>map_refcount := map_refcount mp - 1\<rparr>) else []) @
           (if meta_refcount m - 1 = 0
            then [Ev_kfree_meta
                    (m\<lparr>meta_maps :=
                         (if map_refcount mp - 1 = 0 then list_del d (meta_maps m)
                          else map_update d (\<lambda>p. p\<lparr>map_refcount := map_refcount p - 1\<rparr>)
                                 (meta_maps m)),
                       meta_refcount := meta_refcount m - 1\<rparr>)]
            else [])"
proof -
  let ?f = "\<lambda>m. m\<lparr>meta_maps :=
                        (if map_refcount mp - 1 = 0 then list_del d (meta_maps m)
                         else map_update d (\<lambda>p. p\<lparr>map_refcount := map_refcount p - 1\<rparr>)
                                (meta_maps m))\<rparr>"
  let ?st1 = "st\<lparr>iommu_root := meta_update (priv dbuf) ?f (iommu_root st),
           trace := trace st @
             (if map_refcount mp - 1 = 0
              then unmap_and_free (mp\<lparr>map_refcount := map_refcount mp - 1\<rparr>) else [])\<rparr>"
  have l: "msm_iommu_meta_lookup (iommu_root ?st1) (priv dbuf) = Some (?f m)"
    using assms(1) by (simp add: lookup_meta_update)
  show ?thesis
    unfolding unmap_sg_found [OF assms] meta_put_trace [OF l] by simp
qed

subsection \<open>The buffer is freed\<close>

lemma buf_freed_maps_eq:
  "buf_freed_maps mps ul =
     ul @ map (\<lambda>p. p\<lparr>map_refcount := map_refcount p - 1\<rparr>)
            (filter (\<lambda>p. map_refcount p - 1 = 0) mps)"
  by (induction mps arbitrary: ul) (auto simp: Let_def)

lemma buf_freed_found:
  assumes "msm_iommu_meta_lookup (iommu_root st) b = Some m"
  shows "msm_dma_buf_freed st b =
     msm_iommu_meta_put
       (st\<lparr>iommu_root := meta_update b (\<lambda>m. m\<lparr>meta_maps := []\<rparr>) (iommu_root st),
           trace := trace st @ concat (map unmap_and_free (freed_released (meta_maps m)))\<rparr>) b"
  using assms by (simp add: msm_dma_buf_freed_def Let_def buf_freed_maps_eq freed_released_def)

lemma buf_freed_lookup:
  assumes "index_sorted st" and "msm_iommu_meta_lookup (iommu_root st) b = Some m"
  shows "msm_iommu_meta_lookup (iommu_root (msm_dma_buf_freed st b)) b' =
           (if b' = b
            then (if meta_refcount m - 1 = 0 then None
                  else Some (m\<lparr>meta_maps := [], meta_refcount := meta_refcount m - 1\<rparr>))
            else msm_iommu_meta_lookup (iommu_root st) b')"
proof -
  let ?st1 = "st\<lparr>iommu_root := meta_update b (\<lambda>m. m\<lparr>meta_maps := []\<rparr>) (iommu_root st),
           trace := trace st @ concat (map unmap_and_free (freed_released (meta_maps m)))\<rparr>"
  have s: "index_sorted ?st1"
    using assms(1) by (simp add: index_sorted_def keys_meta_update)
  have l: "msm_iommu_meta_lookup (iommu_root ?st1) b = Some (m\<lparr>meta_maps := []\<rparr>)"
    using assms(2) by (simp add: lookup_meta_update)
  have o: "msm_iommu_meta_lookup (iommu_root ?st1) b' = msm_iommu_meta_lookup (iommu_root st) b'"
    if "b' \<noteq> b"
    using that by (simp add: lookup_meta_update)
  show ?thesis
    unfolding buf_freed_found [OF assms(2)] meta_put_lookup [OF s l]
    using o by simp
qed

lemma buf_freed_trace:
  assumes "msm_iommu_meta_lookup (iommu_root st) b = Some m"
  shows "trace (msm_dma_buf_freed st b) =
           trace st @ concat (map unmap_and_free (freed_released (meta_maps m))) @
           (if meta_refcount m - 1 = 0
            then [Ev_kfree_meta (m\<lparr>meta_maps := [], meta_refcount := meta_refcount m - 1\<rparr>)]
            else [])"
proof -
  let ?st1 = "st\<lparr>iommu_root := meta_update b (\<lambda>m. m\<lparr>meta_maps := []\<rparr>) (iommu_root st),
           trace := trace st @ concat (map unmap_and_free (freed_released (meta_maps m)))\<rparr>"
  have l: "msm_iommu_meta_lookup (iommu_root ?st1) b = Some (m\<lparr>meta_maps := []\<rparr>)"
    using assms by (simp add: lookup_meta_update)
  show ?thesis
    unfolding buf_freed_found [OF assms] meta_put_trace [OF l] by simp
qed

subsection \<open>Claims about a freed buffer\<close>

text \<open>
  C2, as the claim states it, fails. Device 1 maps buffer 7 without the attribute, which
  leaves the count 2 in the meta; the buffer is then freed. The map is gone from the
  cache, but the meta of buffer 7 is still in the tree, with count 1 and no maps.
\<close>

theorem buf_freed_keeps_meta_counterexample:
  "msm_dma_map_sg_attrs no_device_coherent ex_start 1 ex_sg 1 DMA_TO_DEVICE ex_buf None =
     Some (ex_cache None 2 2, ex_sg_mapped, 1) \<and>
   msm_iommu_meta_lookup (iommu_root (ex_cache None 2 2)) 7 = Some (ex_meta 2 2) \<and>
   msm_iommu_meta_lookup (iommu_root (msm_dma_buf_freed (ex_cache None 2 2) 7)) 7 =
     Some \<lparr>meta_maps = [], meta_refcount = 1, meta_buffer = 7\<rparr>"
proof (intro conjI)
  show "msm_dma_map_sg_attrs no_device_coherent ex_start 1 ex_sg 1 DMA_TO_DEVICE ex_buf None =
     Some (ex_cache None 2 2, ex_sg_mapped, 1)"
    by (rule ex_map_lazy)
  show "msm_iommu_meta_lookup (iommu_root (ex_cache None 2 2)) 7 = Some (ex_meta 2 2)"
    by (simp add: ex_defs msm_iommu_meta_lookup_def)
  show "msm_iommu_meta_lookup (iommu_root (msm_dma_buf_freed (ex_cache None 2 2) 7)) 7 =
     Some \<lparr>meta_maps = [], meta_refcount = 1, meta_buffer = 7\<rparr>"
    by (simp add: ex_defs msm_dma_buf_freed_def msm_iommu_meta_put_def msm_iommu_meta_lookup_def)
qed

lemma unmap_and_free_no_kfree_meta:
  "Ev_kfree_meta m' \<notin> set (concat (map unmap_and_free mps))"
  by (induction mps) (auto simp: unmap_and_free_def)

text \<open>
  C2, amended. When \<open>msm_dma_buf_freed\<close> finds a meta for the buffer, then after the
  call the cache holds no map for the buffer and any device, whatever the counts of the
  maps were. The count of the meta is one lower. If that count is 0, the meta has left
  the tree and the call ends with the one \<^verbatim>\<open>kfree\<close> of the meta. If it is not 0, the
  meta is still in the tree, with an empty list of maps, and the call frees no meta: all
  that the call adds to the trace is the unmapping and freeing of maps. The metas of
  other buffers are as before.
\<close>

theorem buf_freed_drains_maps:
  assumes "index_sorted st" and "msm_iommu_meta_lookup (iommu_root st) b = Some m"
  shows "(\<forall>d. cached_map (msm_dma_buf_freed st b) b d = None) \<and>
     (if meta_refcount m - 1 = 0
      then msm_iommu_meta_lookup (iommu_root (msm_dma_buf_freed st b)) b = None \<and>
           Ev_kfree_meta (m\<lparr>meta_maps := [], meta_refcount := 0\<rparr>)
             \<in> set (trace (msm_dma_buf_freed st b)) \<and>
           trace (msm_dma_buf_freed st b) =
             trace st @ concat (map unmap_and_free (freed_released (meta_maps m))) @
             [Ev_kfree_meta (m\<lparr>meta_maps := [], meta_refcount := 0\<rparr>)]
      else msm_iommu_meta_lookup (iommu_root (msm_dma_buf_freed st b)) b =
             Some (m\<lparr>meta_maps := [], meta_refcount := meta_refcount m - 1\<rparr>) \<and>
           trace (msm_dma_buf_freed st b) =
             trace st @ concat (map unmap_and_free (freed_released (meta_maps m)))) \<and>
     (\<forall>m'. Ev_kfree_meta m' \<notin> set (concat (map unmap_and_free (freed_released (meta_maps m))))) \<and>
     (\<forall>b'. b' \<noteq> b \<longrightarrow>
        msm_iommu_meta_lookup (iommu_root (msm_dma_buf_freed st b)) b' =
        msm_iommu_meta_lookup (iommu_root st) b')"
proof -
  note l = buf_freed_lookup [OF assms]
  note t = buf_freed_trace [OF assms(2)]
  have "cached_map (msm_dma_buf_freed st b) b d = None" for d
    by (simp add: cached_map_def l msm_iommu_map_lookup_def)
  moreover note unmap_and_free_no_kfree_meta [of _ "freed_released (meta_maps m)"]
  ultimately show ?thesis
    by (simp add: l t del: set_concat)
qed

text \<open>
  In the concrete run with the attribute set the counts are 1 and 1: freeing the buffer
  unmaps and frees the map, frees the meta and empties the tree. Without the attribute
  the counts are 2 and 2: the meta stays and nothing is added to the trace.
\<close>

theorem buf_freed_drains_maps_witness:
  "index_sorted (ex_cache None 1 1) \<and>
   msm_iommu_meta_lookup (iommu_root (ex_cache None 1 1)) 7 = Some (ex_meta 1 1) \<and>
   cached_map (msm_dma_buf_freed (ex_cache None 1 1) 7) 7 1 = None \<and>
   msm_iommu_meta_lookup (iommu_root (msm_dma_buf_freed (ex_cache None 1 1) 7)) 7 = None \<and>
   trace (msm_dma_buf_freed (ex_cache None 1 1) 7) =
     trace (ex_cache None 1 1) @
     [Ev_dma_unmap_sg 1 ex_sg_mapped 1 DMA_TO_DEVICE, Ev_kfree_map (ex_map 0),
      Ev_kfree_meta \<lparr>meta_maps = [], meta_refcount = 0, meta_buffer = 7\<rparr>] \<and>
   index_sorted (ex_cache None 2 2) \<and>
   msm_iommu_meta_lookup (iommu_root (ex_cache None 2 2)) 7 = Some (ex_meta 2 2) \<and>
   cached_map (msm_dma_buf_freed (ex_cache None 2 2) 7) 7 1 = None \<and>
   msm_iommu_meta_lookup (iommu_root (msm_dma_buf_freed (ex_cache None 2 2) 7)) 7 =
     Some \<lparr>meta_maps = [], meta_refcount = 1, meta_buffer = 7\<rparr> \<and>
   trace (msm_dma_buf_freed (ex_cache None 2 2) 7) = trace (ex_cache None 2 2)"
proof -
  have s: "index_sorted (ex_cache None mrc rc)" for mrc rc
    by (simp add: ex_defs index_sorted_def)
  have l: "msm_iommu_meta_lookup (iommu_root (ex_cache None mrc rc)) 7 = Some (ex_meta mrc rc)"
    for mrc rc
    by (simp add: ex_defs msm_iommu_meta_lookup_def)
  have one: "meta_refcount (ex_meta 1 1) - 1 = 0"
    and two: "meta_refcount (ex_meta 2 2) - 1 \<noteq> 0"
    and m: "ex_meta 2 2\<lparr>meta_maps := [], meta_refcount := meta_refcount (ex_meta 2 2) - 1\<rparr> =
            \<lparr>meta_maps = [], meta_refcount = 1, meta_buffer = 7\<rparr>"
    and m0: "ex_meta 1 1\<lparr>meta_maps := [], meta_refcount := 0\<rparr> =
            \<lparr>meta_maps = [], meta_refcount = 0, meta_buffer = 7\<rparr>"
    and f1: "concat (map unmap_and_free (freed_released (meta_maps (ex_meta 1 1)))) =
            [Ev_dma_unmap_sg 1 ex_sg_mapped 1 DMA_TO_DEVICE, Ev_kfree_map (ex_map 0)]"
    and f2: "concat (map unmap_and_free (freed_released (meta_maps (ex_meta 2 2)))) = []"
    by (simp_all add: ex_defs freed_released_def unmap_and_free_def)
  note t1 = buf_freed_drains_maps [OF s l, of 1 1]
  note t2 = buf_freed_drains_maps [OF s l, of 2 2]
  from t1 [THEN conjunct1] have a1: "cached_map (msm_dma_buf_freed (ex_cache None 1 1) 7) 7 1 = None"
    by simp
  from t1 [THEN conjunct2, THEN conjunct1, unfolded if_P [OF one] m0 f1]
  have a2: "msm_iommu_meta_lookup (iommu_root (msm_dma_buf_freed (ex_cache None 1 1) 7)) 7 = None"
    and a3: "trace (msm_dma_buf_freed (ex_cache None 1 1) 7) =
     trace (ex_cache None 1 1) @
     [Ev_dma_unmap_sg 1 ex_sg_mapped 1 DMA_TO_DEVICE, Ev_kfree_map (ex_map 0),
      Ev_kfree_meta \<lparr>meta_maps = [], meta_refcount = 0, meta_buffer = 7\<rparr>]"
    by simp_all
  from t2 [THEN conjunct1] have b1: "cached_map (msm_dma_buf_freed (ex_cache None 2 2) 7) 7 1 = None"
    by simp
  from t2 [THEN conjunct2, THEN conjunct1, unfolded if_not_P [OF two] m f2]
  have b2: "msm_iommu_meta_lookup (iommu_root (msm_dma_buf_freed (ex_cache None 2 2) 7)) 7 =
     Some \<lparr>meta_maps = [], meta_refcount = 1, meta_buffer = 7\<rparr>"
    and b3: "trace (msm_dma_buf_freed (ex_cache None 2 2) 7) = trace (ex_cache None 2 2)"
    by simp_all
  from s l a1 a2 a3 b1 b2 b3 show ?thesis by blast
qed

text \<open>
  C3, as the claim states it, fails. Device 1 maps buffer 7 without the attribute, so the
  map has count 2; the buffer is then freed. The map leaves the cache, but the trace
  does not grow: \<^verbatim>\<open>dma_unmap_sg\<close> is not called on the map and the map is not freed.
\<close>

theorem buf_freed_leaves_mapped_counterexample:
  "cached_map (ex_cache None 2 2) 7 1 = Some (ex_map 2) \<and>
   cached_map (msm_dma_buf_freed (ex_cache None 2 2) 7) 7 1 = None \<and>
   trace (msm_dma_buf_freed (ex_cache None 2 2) 7) = trace (ex_cache None 2 2)"
  by (simp add: ex_defs msm_dma_buf_freed_def msm_iommu_meta_put_def msm_iommu_meta_lookup_def
      msm_iommu_map_lookup_def cached_map_def)

text \<open>
  C3, amended. When \<open>msm_dma_buf_freed\<close> finds a meta for the buffer, every map of the
  meta leaves the list. The maps whose count reaches 0 on the one decrement are, in list
  order, passed to \<^verbatim>\<open>dma_unmap_sg\<close> and freed, and these are the only calls of
  \<^verbatim>\<open>dma_unmap_sg\<close> and the only maps freed: a map whose count is still not 0 after the
  decrement is taken off the list and nothing more, it is neither unmapped nor freed.
\<close>

theorem buf_freed_unmaps_only_last_references:
  assumes "msm_iommu_meta_lookup (iommu_root st) b = Some m"
  shows "trace (msm_dma_buf_freed st b) =
           trace st @ concat (map unmap_and_free (freed_released (meta_maps m))) @
           (if meta_refcount m - 1 = 0
            then [Ev_kfree_meta (m\<lparr>meta_maps := [], meta_refcount := meta_refcount m - 1\<rparr>)]
            else []) \<and>
         set (freed_released (meta_maps m)) =
           (\<lambda>p. p\<lparr>map_refcount := 0\<rparr>) ` {p \<in> set (meta_maps m). map_refcount p - 1 = 0} \<and>
         (\<forall>p \<in> set (meta_maps m). map_refcount p - 1 \<noteq> 0 \<longrightarrow>
            (\<forall>q. map_refcount q = map_refcount p - 1 \<longrightarrow>
               Ev_kfree_map q \<notin> set (concat (map unmap_and_free (freed_released (meta_maps m)))))) \<and>
         (index_sorted st \<longrightarrow> (\<forall>d. cached_map (msm_dma_buf_freed st b) b d = None))"
proof -
  have r: "set (freed_released (meta_maps m)) =
           (\<lambda>p. p\<lparr>map_refcount := 0\<rparr>) ` {p \<in> set (meta_maps m). map_refcount p - 1 = 0}"
    by (auto simp: freed_released_def image_iff)
  have k: "Ev_kfree_map q \<in> set (concat (map unmap_and_free mps)) \<longleftrightarrow> q \<in> set mps"
    for q mps
    by (induction mps) (auto simp: unmap_and_free_def)
  have n: "Ev_kfree_map q \<notin> set (concat (map unmap_and_free (freed_released (meta_maps m))))"
    if "map_refcount q \<noteq> 0" for q
    using that unfolding k r by auto
  have c: "cached_map (msm_dma_buf_freed st b) b d = None" if "index_sorted st" for d
    by (simp add: cached_map_def buf_freed_lookup [OF that assms] msm_iommu_map_lookup_def)
  show ?thesis
    using buf_freed_trace [OF assms] r n c by auto
qed

text \<open>
  In the second state of the concrete run, buffer 3 has a map with count 2 and a map with
  count 1: freeing the buffer unmaps and frees the second and only detaches the first.
\<close>

theorem buf_freed_unmaps_only_last_references_witness:
  "msm_iommu_meta_lookup (iommu_root ex_shared) 3 =
     Some \<lparr>meta_maps = [ex_map_of 1 3 2, ex_map_of 2 3 1], meta_refcount = 2, meta_buffer = 3\<rparr> \<and>
   index_sorted ex_shared \<and>
   trace (msm_dma_buf_freed ex_shared 3) =
     [Ev_dma_unmap_sg 2 ex_sg_mapped 1 DMA_TO_DEVICE, Ev_kfree_map (ex_map_of 2 3 0)] \<and>
   Ev_kfree_map (ex_map_of 1 3 1) \<notin> set (trace (msm_dma_buf_freed ex_shared 3)) \<and>
   cached_map (msm_dma_buf_freed ex_shared 3) 3 1 = None"
proof -
  let ?m = "\<lparr>meta_maps = [ex_map_of 1 3 2, ex_map_of 2 3 1], meta_refcount = 2, meta_buffer = 3\<rparr>"
  have l: "msm_iommu_meta_lookup (iommu_root ex_shared) 3 = Some ?m"
    by (simp add: ex_defs msm_iommu_meta_lookup_def)
  have s: "index_sorted ex_shared"
    by (simp add: ex_defs index_sorted_def)
  have f: "freed_released (meta_maps ?m) = [ex_map_of 2 3 0]"
    by (simp add: ex_defs freed_released_def)
  have u: "unmap_and_free (ex_map_of 2 3 0) =
      [Ev_dma_unmap_sg 2 ex_sg_mapped 1 DMA_TO_DEVICE, Ev_kfree_map (ex_map_of 2 3 0)]"
    by (simp add: ex_defs unmap_and_free_def)
  note t = buf_freed_unmaps_only_last_references [OF l]
  from t [THEN conjunct1] have tr: "trace (msm_dma_buf_freed ex_shared 3) =
     [Ev_dma_unmap_sg 2 ex_sg_mapped 1 DMA_TO_DEVICE, Ev_kfree_map (ex_map_of 2 3 0)]"
    unfolding f by (simp add: u) (simp add: ex_defs)
  have nf: "Ev_kfree_map (ex_map_of 1 3 1) \<notin> set (trace (msm_dma_buf_freed ex_shared 3))"
    unfolding tr by (simp add: ex_defs)
  from t s have "cached_map (msm_dma_buf_freed ex_shared 3) 3 1 = None"
    by blast
  with l s tr nf show ?thesis by blast
qed

subsection \<open>The count of a meta\<close>









subsection \<open>Creating and releasing a mapping\<close>

lemma dma_get_attr_cases: "dma_get_attr a attrs = 0 \<or> dma_get_attr a attrs = 1"
  by (simp add: dma_get_attr_def split: option.splits)

text \<open>A map call on a buffer without meta returns when the environment lets it.\<close>

lemma map_without_meta_returns:
  assumes "msm_iommu_meta_lookup (iommu_root st) (priv dbuf) = None"
    and "2 \<le> length (filter id (kmalloc_replies st))"
    and "list_ex (\<lambda>r. r \<noteq> Retryable_failure) (dma_map_replies st)"
  shows "\<exists>st' sg'. msm_dma_map_sg_attrs coh st d sg n di dbuf attrs = Some (st', sg', n)"
proof -
  from assms(2) have "Suc 1 \<le> length (filter id (kmalloc_replies st))" by simp
  from kmalloc_retry_returns [OF this] obtain ks where
    ks: "kmalloc_retry (kmalloc_replies st) = Some ks" "1 \<le> length (filter id ks)"
    by blast
  let ?st1 = "st\<lparr>iommu_root :=
                          msm_iommu_meta_add
                            \<lparr>meta_maps = [],
                             meta_refcount =
                               word_of_int (2 - dma_get_attr DMA_ATTR_NO_DELAYED_UNMAP attrs),
                             meta_buffer = priv dbuf\<rparr> (iommu_root st),
                        kmalloc_replies := ks\<rparr>"
  have "\<exists>st' sg'. map_miss ?st1 d sg n di (priv dbuf) attrs
          (dma_get_attr DMA_ATTR_NO_DELAYED_UNMAP attrs) = Some (st', sg', n)"
    using ks(2) assms(3) by (intro map_miss_returns) simp_all
  then show ?thesis
    unfolding map_without_meta [OF assms(1)] ks(1) by simp
qed

text \<open>One reference of a meta that holds one map, for the device, is released.\<close>

lemma unmap_sg_single:
  assumes "index_sorted st"
    and "msm_iommu_meta_lookup (iommu_root st) (priv dbuf) =
           Some \<lparr>meta_maps = [mp], meta_refcount = c, meta_buffer = priv dbuf\<rparr>"
    and "map_dev mp = d"
  shows "msm_iommu_meta_lookup (iommu_root (msm_dma_unmap_sg st d dbuf)) (priv dbuf) =
           (if c - 1 = 0 then None
            else Some \<lparr>meta_maps = (if map_refcount mp - 1 = 0 then []
                                    else [mp\<lparr>map_refcount := map_refcount mp - 1\<rparr>]),
                       meta_refcount = c - 1, meta_buffer = priv dbuf\<rparr>)"
    and "trace (msm_dma_unmap_sg st d dbuf) =
           trace st @
           (if map_refcount mp - 1 = 0
            then unmap_and_free (mp\<lparr>map_refcount := map_refcount mp - 1\<rparr>) else []) @
           (if c - 1 = 0
            then [Ev_kfree_meta
                    \<lparr>meta_maps = (if map_refcount mp - 1 = 0 then []
                                  else [mp\<lparr>map_refcount := map_refcount mp - 1\<rparr>]),
                     meta_refcount = c - 1, meta_buffer = priv dbuf\<rparr>]
            else [])"
proof -
  have p: "msm_iommu_map_lookup \<lparr>meta_maps = [mp], meta_refcount = c, meta_buffer = priv dbuf\<rparr> d =
      Some mp"
    using assms(3) by (simp add: msm_iommu_map_lookup_def)
  show "msm_iommu_meta_lookup (iommu_root (msm_dma_unmap_sg st d dbuf)) (priv dbuf) =
           (if c - 1 = 0 then None
            else Some \<lparr>meta_maps = (if map_refcount mp - 1 = 0 then []
                                    else [mp\<lparr>map_refcount := map_refcount mp - 1\<rparr>]),
                       meta_refcount = c - 1, meta_buffer = priv dbuf\<rparr>)"
    using assms(3) by (simp add: unmap_sg_lookup [OF assms(1,2) p])
  show "trace (msm_dma_unmap_sg st d dbuf) =
           trace st @
           (if map_refcount mp - 1 = 0
            then unmap_and_free (mp\<lparr>map_refcount := map_refcount mp - 1\<rparr>) else []) @
           (if c - 1 = 0
            then [Ev_kfree_meta
                    \<lparr>meta_maps = (if map_refcount mp - 1 = 0 then []
                                  else [mp\<lparr>map_refcount := map_refcount mp - 1\<rparr>]),
                     meta_refcount = c - 1, meta_buffer = priv dbuf\<rparr>]
            else [])"
    using assms(3) by (simp add: unmap_sg_trace [OF assms(2) p])
qed

text \<open>
  C1, as the claim states it, fails. With \<^verbatim>\<open>DMA_ATTR_NO_DELAYED_UNMAP\<close> set, the
  creating call leaves count 1, not 2, in the meta and in the map, and one unmap call
  empties the tree. Without the attribute the counts are 2, not 1, and after one unmap
  call the meta and the map are still there.
\<close>

theorem seed_counterexample:
  "msm_dma_map_sg_attrs no_device_coherent ex_start 1 ex_sg 1 DMA_TO_DEVICE ex_buf
     (Some [DMA_ATTR_NO_DELAYED_UNMAP]) =
     Some (ex_cache (Some [DMA_ATTR_NO_DELAYED_UNMAP]) 1 1, ex_sg_mapped, 1) \<and>
   iommu_root (ex_cache (Some [DMA_ATTR_NO_DELAYED_UNMAP]) 1 1) = [ex_meta 1 1] \<and>
   meta_refcount (ex_meta 1 1) = 1 \<and> map map_refcount (meta_maps (ex_meta 1 1)) = [1] \<and>
   iommu_root (msm_dma_unmap_sg (ex_cache (Some [DMA_ATTR_NO_DELAYED_UNMAP]) 1 1) 1 ex_buf) = [] \<and>
   msm_dma_map_sg_attrs no_device_coherent ex_start 1 ex_sg 1 DMA_TO_DEVICE ex_buf None =
     Some (ex_cache None 2 2, ex_sg_mapped, 1) \<and>
   iommu_root (ex_cache None 2 2) = [ex_meta 2 2] \<and>
   meta_refcount (ex_meta 2 2) = 2 \<and> map map_refcount (meta_maps (ex_meta 2 2)) = [2] \<and>
   iommu_root (msm_dma_unmap_sg (ex_cache None 2 2) 1 ex_buf) = [ex_meta 1 1]"
proof (intro conjI)
  show "msm_dma_map_sg_attrs no_device_coherent ex_start 1 ex_sg 1 DMA_TO_DEVICE ex_buf
     (Some [DMA_ATTR_NO_DELAYED_UNMAP]) =
     Some (ex_cache (Some [DMA_ATTR_NO_DELAYED_UNMAP]) 1 1, ex_sg_mapped, 1)"
    by (rule ex_map_eager)
  show "msm_dma_map_sg_attrs no_device_coherent ex_start 1 ex_sg 1 DMA_TO_DEVICE ex_buf None =
     Some (ex_cache None 2 2, ex_sg_mapped, 1)"
    by (rule ex_map_lazy)
  show "iommu_root (msm_dma_unmap_sg (ex_cache (Some [DMA_ATTR_NO_DELAYED_UNMAP]) 1 1) 1 ex_buf) = []"
    by (simp add: ex_defs msm_dma_unmap_sg_def msm_iommu_meta_put_def msm_iommu_meta_lookup_def
        msm_iommu_map_lookup_def)
  show "iommu_root (msm_dma_unmap_sg (ex_cache None 2 2) 1 ex_buf) = [ex_meta 1 1]"
    by (simp add: ex_defs msm_dma_unmap_sg_def msm_iommu_meta_put_def msm_iommu_meta_lookup_def
        msm_iommu_map_lookup_def)
qed (simp_all add: ex_defs)

text \<open>
  C1, amended. A map call for a buffer that has no meta returns when the environment
  grants two allocations and one mapping. With \<^verbatim>\<open>DMA_ATTR_NO_DELAYED_UNMAP\<close> set it
  leaves a meta with count 1 holding one map with count 1, and one unmap call unmaps and
  frees the map and frees the meta. Without the attribute both counts are 2; one unmap
  call lowers both to 1 and calls nothing outside, and the second unmap call unmaps and
  frees the map and frees the meta. A map call that finds the meta but no map for the
  device creates the map with count 1 or 2 by the same rule.
\<close>

theorem seed_by_attribute:
  "(index_sorted st \<and> msm_iommu_meta_lookup (iommu_root st) (priv dbuf) = None \<and>
    2 \<le> length (filter id (kmalloc_replies st)) \<and>
    list_ex (\<lambda>r. r \<noteq> Retryable_failure) (dma_map_replies st) \<longrightarrow>
    (\<exists>st' sg' mp.
       msm_dma_map_sg_attrs coh st d sg n di dbuf attrs = Some (st', sg', n) \<and>
       map_dev mp = d \<and> map_sgl mp = sg' \<and>
       (if dma_get_attr DMA_ATTR_NO_DELAYED_UNMAP attrs = 1
        then map_refcount mp = 1 \<and>
             msm_iommu_meta_lookup (iommu_root st') (priv dbuf) =
               Some \<lparr>meta_maps = [mp], meta_refcount = 1, meta_buffer = priv dbuf\<rparr> \<and>
             msm_iommu_meta_lookup (iommu_root (msm_dma_unmap_sg st' d dbuf)) (priv dbuf) = None \<and>
             trace (msm_dma_unmap_sg st' d dbuf) =
               trace st' @ unmap_and_free (mp\<lparr>map_refcount := 0\<rparr>) @
               [Ev_kfree_meta \<lparr>meta_maps = [], meta_refcount = 0, meta_buffer = priv dbuf\<rparr>]
        else map_refcount mp = 2 \<and>
             msm_iommu_meta_lookup (iommu_root st') (priv dbuf) =
               Some \<lparr>meta_maps = [mp], meta_refcount = 2, meta_buffer = priv dbuf\<rparr> \<and>
             msm_iommu_meta_lookup (iommu_root (msm_dma_unmap_sg st' d dbuf)) (priv dbuf) =
               Some \<lparr>meta_maps = [mp\<lparr>map_refcount := 1\<rparr>], meta_refcount = 1,
                     meta_buffer = priv dbuf\<rparr> \<and>
             trace (msm_dma_unmap_sg st' d dbuf) = trace st' \<and>
             msm_iommu_meta_lookup
               (iommu_root (msm_dma_unmap_sg (msm_dma_unmap_sg st' d dbuf) d dbuf)) (priv dbuf) =
               None \<and>
             trace (msm_dma_unmap_sg (msm_dma_unmap_sg st' d dbuf) d dbuf) =
               trace st' @ unmap_and_free (mp\<lparr>map_refcount := 0\<rparr>) @
               [Ev_kfree_meta \<lparr>meta_maps = [], meta_refcount = 0, meta_buffer = priv dbuf\<rparr>]))) \<and>
   (\<forall>m st' sg' r.
      msm_iommu_meta_lookup (iommu_root st) (priv dbuf) = Some m \<and>
      msm_iommu_map_lookup m d = None \<and>
      msm_dma_map_sg_attrs coh st d sg n di dbuf attrs = Some (st', sg', r) \<longrightarrow>
      (\<exists>mp. cached_map st' (priv dbuf) d = Some mp \<and>
            map_refcount mp =
              (if dma_get_attr DMA_ATTR_NO_DELAYED_UNMAP attrs = 1 then 1 else 2)))"
proof (intro conjI impI allI)
  assume a: "index_sorted st \<and> msm_iommu_meta_lookup (iommu_root st) (priv dbuf) = None \<and>
    2 \<le> length (filter id (kmalloc_replies st)) \<and>
    list_ex (\<lambda>r. r \<noteq> Retryable_failure) (dma_map_replies st)"
  then have s: "index_sorted st" and l: "msm_iommu_meta_lookup (iommu_root st) (priv dbuf) = None"
    by simp_all
  from a map_without_meta_returns [of st dbuf coh d sg n di attrs] obtain st' sg' where
    r: "msm_dma_map_sg_attrs coh st d sg n di dbuf attrs = Some (st', sg', n)"
    by blast
  let ?seed = "word_of_int (2 - dma_get_attr DMA_ATTR_NO_DELAYED_UNMAP attrs) :: atomic_t"
  from map_creates_meta [OF l r] obtain mp where
    mp: "map_dev mp = d" "map_sgl mp = sg'" "map_refcount mp = ?seed"
      "msm_iommu_meta_lookup (iommu_root st') (priv dbuf) =
         Some \<lparr>meta_maps = [mp], meta_refcount = ?seed, meta_buffer = priv dbuf\<rparr>"
    by auto
  have s': "index_sorted st'"
    using s r by (rule index_sorted_map)
  note u1 = unmap_sg_single [OF s' mp(4) mp(1)]
  have "if dma_get_attr DMA_ATTR_NO_DELAYED_UNMAP attrs = 1
        then map_refcount mp = 1 \<and>
             msm_iommu_meta_lookup (iommu_root st') (priv dbuf) =
               Some \<lparr>meta_maps = [mp], meta_refcount = 1, meta_buffer = priv dbuf\<rparr> \<and>
             msm_iommu_meta_lookup (iommu_root (msm_dma_unmap_sg st' d dbuf)) (priv dbuf) = None \<and>
             trace (msm_dma_unmap_sg st' d dbuf) =
               trace st' @ unmap_and_free (mp\<lparr>map_refcount := 0\<rparr>) @
               [Ev_kfree_meta \<lparr>meta_maps = [], meta_refcount = 0, meta_buffer = priv dbuf\<rparr>]
        else map_refcount mp = 2 \<and>
             msm_iommu_meta_lookup (iommu_root st') (priv dbuf) =
               Some \<lparr>meta_maps = [mp], meta_refcount = 2, meta_buffer = priv dbuf\<rparr> \<and>
             msm_iommu_meta_lookup (iommu_root (msm_dma_unmap_sg st' d dbuf)) (priv dbuf) =
               Some \<lparr>meta_maps = [mp\<lparr>map_refcount := 1\<rparr>], meta_refcount = 1,
                     meta_buffer = priv dbuf\<rparr> \<and>
             trace (msm_dma_unmap_sg st' d dbuf) = trace st' \<and>
             msm_iommu_meta_lookup
               (iommu_root (msm_dma_unmap_sg (msm_dma_unmap_sg st' d dbuf) d dbuf)) (priv dbuf) =
               None \<and>
             trace (msm_dma_unmap_sg (msm_dma_unmap_sg st' d dbuf) d dbuf) =
               trace st' @ unmap_and_free (mp\<lparr>map_refcount := 0\<rparr>) @
               [Ev_kfree_meta \<lparr>meta_maps = [], meta_refcount = 0, meta_buffer = priv dbuf\<rparr>]"
  proof (cases "dma_get_attr DMA_ATTR_NO_DELAYED_UNMAP attrs = 1")
    case True
    then have seed: "?seed = 1" by simp
    show ?thesis
      using True mp(3,4) u1 unfolding seed by simp
  next
    case False
    with dma_get_attr_cases [of DMA_ATTR_NO_DELAYED_UNMAP attrs]
    have "dma_get_attr DMA_ATTR_NO_DELAYED_UNMAP attrs = 0" by simp
    then have seed: "?seed = 2" by simp
    have l1: "msm_iommu_meta_lookup (iommu_root (msm_dma_unmap_sg st' d dbuf)) (priv dbuf) =
               Some \<lparr>meta_maps = [mp\<lparr>map_refcount := 1\<rparr>], meta_refcount = 1,
                     meta_buffer = priv dbuf\<rparr>"
      and t1: "trace (msm_dma_unmap_sg st' d dbuf) = trace st'"
      using mp(3) u1 unfolding seed by simp_all
    have s1: "index_sorted (msm_dma_unmap_sg st' d dbuf)"
      using s' by (rule index_sorted_unmap_sg)
    have d1: "map_dev (mp\<lparr>map_refcount := 1\<rparr>) = d"
      using mp(1) by simp
    note u2 = unmap_sg_single [OF s1 l1 d1]
    show ?thesis
      using False mp(3,4) l1 t1 u2 unfolding seed by simp
  qed
  with r mp(1,2) show "\<exists>st' sg' mp.
       msm_dma_map_sg_attrs coh st d sg n di dbuf attrs = Some (st', sg', n) \<and>
       map_dev mp = d \<and> map_sgl mp = sg' \<and>
       (if dma_get_attr DMA_ATTR_NO_DELAYED_UNMAP attrs = 1
        then map_refcount mp = 1 \<and>
             msm_iommu_meta_lookup (iommu_root st') (priv dbuf) =
               Some \<lparr>meta_maps = [mp], meta_refcount = 1, meta_buffer = priv dbuf\<rparr> \<and>
             msm_iommu_meta_lookup (iommu_root (msm_dma_unmap_sg st' d dbuf)) (priv dbuf) = None \<and>
             trace (msm_dma_unmap_sg st' d dbuf) =
               trace st' @ unmap_and_free (mp\<lparr>map_refcount := 0\<rparr>) @
               [Ev_kfree_meta \<lparr>meta_maps = [], meta_refcount = 0, meta_buffer = priv dbuf\<rparr>]
        else map_refcount mp = 2 \<and>
             msm_iommu_meta_lookup (iommu_root st') (priv dbuf) =
               Some \<lparr>meta_maps = [mp], meta_refcount = 2, meta_buffer = priv dbuf\<rparr> \<and>
             msm_iommu_meta_lookup (iommu_root (msm_dma_unmap_sg st' d dbuf)) (priv dbuf) =
               Some \<lparr>meta_maps = [mp\<lparr>map_refcount := 1\<rparr>], meta_refcount = 1,
                     meta_buffer = priv dbuf\<rparr> \<and>
             trace (msm_dma_unmap_sg st' d dbuf) = trace st' \<and>
             msm_iommu_meta_lookup
               (iommu_root (msm_dma_unmap_sg (msm_dma_unmap_sg st' d dbuf) d dbuf)) (priv dbuf) =
               None \<and>
             trace (msm_dma_unmap_sg (msm_dma_unmap_sg st' d dbuf) d dbuf) =
               trace st' @ unmap_and_free (mp\<lparr>map_refcount := 0\<rparr>) @
               [Ev_kfree_meta \<lparr>meta_maps = [], meta_refcount = 0, meta_buffer = priv dbuf\<rparr>])"
    by blast
next
  fix m st' sg' r
  assume a: "msm_iommu_meta_lookup (iommu_root st) (priv dbuf) = Some m \<and>
      msm_iommu_map_lookup m d = None \<and>
      msm_dma_map_sg_attrs coh st d sg n di dbuf attrs = Some (st', sg', r)"
  then have "msm_iommu_meta_lookup (iommu_root st) (priv dbuf) = Some m"
    "msm_iommu_map_lookup m d = None"
    "msm_dma_map_sg_attrs coh st d sg n di dbuf attrs = Some (st', sg', r)"
    by simp_all
  from map_creates_in_meta [OF this] obtain mp where
    mp: "map_dev mp = d"
      "map_refcount mp = word_of_int (2 - dma_get_attr DMA_ATTR_NO_DELAYED_UNMAP attrs)"
      "msm_iommu_meta_lookup (iommu_root st') (priv dbuf) =
         Some (m\<lparr>meta_refcount := meta_refcount m + 1, meta_maps := mp # meta_maps m\<rparr>)"
    by auto
  have c: "cached_map st' (priv dbuf) d = Some mp"
    using mp(1,3) by (simp add: cached_map_def msm_iommu_map_lookup_def)
  have "map_refcount mp = (if dma_get_attr DMA_ATTR_NO_DELAYED_UNMAP attrs = 1 then 1 else 2)"
    using dma_get_attr_cases [of DMA_ATTR_NO_DELAYED_UNMAP attrs] mp(2) by auto
  with c show "\<exists>mp. cached_map st' (priv dbuf) d = Some mp \<and>
            map_refcount mp =
              (if dma_get_attr DMA_ATTR_NO_DELAYED_UNMAP attrs = 1 then 1 else 2)"
    by blast
qed

text \<open>
  In the concrete run, from the empty cache: with the attribute the counts are 1 and one
  unmap call removes the meta; without it the counts are 2 and the meta is removed by the
  second unmap call. In the second state, device 2 maps buffer 7, whose meta exists,
  without the attribute: its new map has count 2.
\<close>

theorem seed_by_attribute_witness:
  "(index_sorted ex_start \<and> msm_iommu_meta_lookup (iommu_root ex_start) (priv ex_buf) = None \<and>
    2 \<le> length (filter id (kmalloc_replies ex_start)) \<and>
    list_ex (\<lambda>r. r \<noteq> Retryable_failure) (dma_map_replies ex_start)) \<and>
   (\<exists>st' sg' mp.
      msm_dma_map_sg_attrs no_device_coherent ex_start 1 ex_sg 1 DMA_TO_DEVICE ex_buf
        (Some [DMA_ATTR_NO_DELAYED_UNMAP]) = Some (st', sg', 1) \<and>
      map_refcount mp = 1 \<and>
      msm_iommu_meta_lookup (iommu_root st') (priv ex_buf) =
        Some \<lparr>meta_maps = [mp], meta_refcount = 1, meta_buffer = priv ex_buf\<rparr> \<and>
      msm_iommu_meta_lookup (iommu_root (msm_dma_unmap_sg st' 1 ex_buf)) (priv ex_buf) = None) \<and>
   (\<exists>st' sg' mp.
      msm_dma_map_sg_attrs no_device_coherent ex_start 1 ex_sg 1 DMA_TO_DEVICE ex_buf None =
        Some (st', sg', 1) \<and>
      map_refcount mp = 2 \<and>
      msm_iommu_meta_lookup (iommu_root st') (priv ex_buf) =
        Some \<lparr>meta_maps = [mp], meta_refcount = 2, meta_buffer = priv ex_buf\<rparr> \<and>
      msm_iommu_meta_lookup (iommu_root (msm_dma_unmap_sg st' 1 ex_buf)) (priv ex_buf) =
        Some \<lparr>meta_maps = [mp\<lparr>map_refcount := 1\<rparr>], meta_refcount = 1,
              meta_buffer = priv ex_buf\<rparr> \<and>
      msm_iommu_meta_lookup
        (iommu_root (msm_dma_unmap_sg (msm_dma_unmap_sg st' 1 ex_buf) 1 ex_buf)) (priv ex_buf) =
        None) \<and>
   msm_iommu_meta_lookup (iommu_root ex_shared) (priv ex_buf) =
     Some \<lparr>meta_maps = [ex_map_of 1 7 1], meta_refcount = 1, meta_buffer = 7\<rparr> \<and>
   msm_iommu_map_lookup \<lparr>meta_maps = [ex_map_of 1 7 1], meta_refcount = 1, meta_buffer = 7\<rparr> 2 =
     None \<and>
   (\<exists>st' sg' mp.
      msm_dma_map_sg_attrs no_device_coherent ex_shared 2 ex_sg 1 DMA_TO_DEVICE ex_buf None =
        Some (st', sg', 1) \<and>
      cached_map st' (priv ex_buf) 2 = Some mp \<and> map_refcount mp = 2)"
proof -
  let ?m7 = "\<lparr>meta_maps = [ex_map_of 1 7 1], meta_refcount = 1, meta_buffer = 7\<rparr>"
  have h: "index_sorted ex_start \<and> msm_iommu_meta_lookup (iommu_root ex_start) (priv ex_buf) = None \<and>
    2 \<le> length (filter id (kmalloc_replies ex_start)) \<and>
    list_ex (\<lambda>r. r \<noteq> Retryable_failure) (dma_map_replies ex_start)"
    by (simp add: ex_defs index_sorted_def msm_iommu_meta_lookup_def)
  have g1: "dma_get_attr DMA_ATTR_NO_DELAYED_UNMAP (Some [DMA_ATTR_NO_DELAYED_UNMAP]) = 1"
    and g0: "dma_get_attr DMA_ATTR_NO_DELAYED_UNMAP None \<noteq> 1"
    by (simp_all add: dma_get_attr_def)
  note t1 = seed_by_attribute [where st = ex_start and dbuf = ex_buf and d = 1
      and coh = no_device_coherent and sg = ex_sg and n = 1 and di = DMA_TO_DEVICE
      and attrs = "Some [DMA_ATTR_NO_DELAYED_UNMAP]"]
  note t0 = seed_by_attribute [where st = ex_start and dbuf = ex_buf and d = 1
      and coh = no_device_coherent and sg = ex_sg and n = 1 and di = DMA_TO_DEVICE
      and attrs = None]
  note t2 = seed_by_attribute [where st = ex_shared and dbuf = ex_buf and d = 2
      and coh = no_device_coherent and sg = ex_sg and n = 1 and di = DMA_TO_DEVICE
      and attrs = None]
  from t1 [THEN conjunct1, rule_format, OF h]
  have a: "\<exists>st' sg' mp.
      msm_dma_map_sg_attrs no_device_coherent ex_start 1 ex_sg 1 DMA_TO_DEVICE ex_buf
        (Some [DMA_ATTR_NO_DELAYED_UNMAP]) = Some (st', sg', 1) \<and>
      map_refcount mp = 1 \<and>
      msm_iommu_meta_lookup (iommu_root st') (priv ex_buf) =
        Some \<lparr>meta_maps = [mp], meta_refcount = 1, meta_buffer = priv ex_buf\<rparr> \<and>
      msm_iommu_meta_lookup (iommu_root (msm_dma_unmap_sg st' 1 ex_buf)) (priv ex_buf) = None"
    unfolding g1 if_P [OF refl] by blast
  from t0 [THEN conjunct1, rule_format, OF h]
  have b: "\<exists>st' sg' mp.
      msm_dma_map_sg_attrs no_device_coherent ex_start 1 ex_sg 1 DMA_TO_DEVICE ex_buf None =
        Some (st', sg', 1) \<and>
      map_refcount mp = 2 \<and>
      msm_iommu_meta_lookup (iommu_root st') (priv ex_buf) =
        Some \<lparr>meta_maps = [mp], meta_refcount = 2, meta_buffer = priv ex_buf\<rparr> \<and>
      msm_iommu_meta_lookup (iommu_root (msm_dma_unmap_sg st' 1 ex_buf)) (priv ex_buf) =
        Some \<lparr>meta_maps = [mp\<lparr>map_refcount := 1\<rparr>], meta_refcount = 1,
              meta_buffer = priv ex_buf\<rparr> \<and>
      msm_iommu_meta_lookup
        (iommu_root (msm_dma_unmap_sg (msm_dma_unmap_sg st' 1 ex_buf) 1 ex_buf)) (priv ex_buf) =
        None"
    unfolding if_not_P [OF g0] by blast
  have l7: "msm_iommu_meta_lookup (iommu_root ex_shared) (priv ex_buf) = Some ?m7"
    by (simp add: ex_defs msm_iommu_meta_lookup_def)
  have p2: "msm_iommu_map_lookup ?m7 2 = None"
    by (simp add: ex_defs msm_iommu_map_lookup_def)
  obtain st2 sg2 where
    m2: "msm_dma_map_sg_attrs no_device_coherent ex_shared 2 ex_sg 1 DMA_TO_DEVICE ex_buf None =
        Some (st2, sg2, 1)"
    by (simp add: ex_defs msm_dma_map_sg_attrs_def map_miss_def msm_iommu_meta_lookup_def
        msm_iommu_map_lookup_def)
  from t2 [THEN conjunct2, rule_format, OF conjI [OF l7 conjI [OF p2 m2]]] g0
  have "\<exists>mp. cached_map st2 (priv ex_buf) 2 = Some mp \<and> map_refcount mp = 2"
    by simp
  with m2 have c: "\<exists>st' sg' mp.
      msm_dma_map_sg_attrs no_device_coherent ex_shared 2 ex_sg 1 DMA_TO_DEVICE ex_buf None =
        Some (st', sg', 1) \<and>
      cached_map st' (priv ex_buf) 2 = Some mp \<and> map_refcount mp = 2"
    by blast
  from h a b l7 p2 c show ?thesis by blast
qed

subsection \<open>Mapping twice, unmapping twice\<close>

text \<open>
  C9, as the claim states it, fails. Device 1 maps buffer 7 twice without the attribute:
  the counts are 2 after the first call and 3 after the second. The first unmap call
  lowers the count of the map to 2, not to 0, and frees nothing; the second unmap call is
  not a no-op, it lowers the counts to 1. With the attribute set on both map calls the
  counts are 1, then 2; the first unmap call leaves the map cached with count 1, and the
  second unmap call changes the state again.
\<close>

theorem map_twice_unmap_twice_counterexample:
  "msm_dma_map_sg_attrs no_device_coherent ex_start 1 ex_sg 1 DMA_TO_DEVICE ex_buf None =
     Some (ex_cache None 2 2, ex_sg_mapped, 1) \<and>
   msm_dma_map_sg_attrs no_device_coherent (ex_cache None 2 2) 1 ex_sg 1 DMA_TO_DEVICE ex_buf None =
     Some (ex_cache None 3 3, ex_sg_mapped, 1) \<and>
   msm_dma_unmap_sg (ex_cache None 3 3) 1 ex_buf = ex_cache None 2 2 \<and>
   cached_map (ex_cache None 2 2) 7 1 = Some (ex_map 2) \<and>
   msm_dma_unmap_sg (ex_cache None 2 2) 1 ex_buf = ex_cache None 1 1 \<and>
   ex_cache None 1 1 \<noteq> ex_cache None 2 2 \<and>
   msm_dma_map_sg_attrs no_device_coherent ex_start 1 ex_sg 1 DMA_TO_DEVICE ex_buf
     (Some [DMA_ATTR_NO_DELAYED_UNMAP]) =
     Some (ex_cache (Some [DMA_ATTR_NO_DELAYED_UNMAP]) 1 1, ex_sg_mapped, 1) \<and>
   msm_dma_map_sg_attrs no_device_coherent (ex_cache (Some [DMA_ATTR_NO_DELAYED_UNMAP]) 1 1) 1
     ex_sg 1 DMA_TO_DEVICE ex_buf (Some [DMA_ATTR_NO_DELAYED_UNMAP]) =
     Some (ex_cache (Some [DMA_ATTR_NO_DELAYED_UNMAP]) 2 2, ex_sg_mapped, 1) \<and>
   msm_dma_unmap_sg (ex_cache (Some [DMA_ATTR_NO_DELAYED_UNMAP]) 2 2) 1 ex_buf =
     ex_cache (Some [DMA_ATTR_NO_DELAYED_UNMAP]) 1 1 \<and>
   cached_map (ex_cache (Some [DMA_ATTR_NO_DELAYED_UNMAP]) 1 1) 7 1 = Some (ex_map 1) \<and>
   msm_dma_unmap_sg (ex_cache (Some [DMA_ATTR_NO_DELAYED_UNMAP]) 1 1) 1 ex_buf \<noteq>
     ex_cache (Some [DMA_ATTR_NO_DELAYED_UNMAP]) 1 1"
proof -
  have hit: "msm_dma_map_sg_attrs no_device_coherent (ex_cache a c c) 1 ex_sg 1 DMA_TO_DEVICE
      ex_buf a = Some (ex_cache a (c + 1) (c + 1), ex_sg_mapped, 1)" for a c
    by (simp add: ex_defs msm_dma_map_sg_attrs_def msm_iommu_meta_lookup_def
        msm_iommu_map_lookup_def)
  have put3: "msm_dma_unmap_sg (ex_cache a 3 3) 1 ex_buf = ex_cache a 2 2"
    and put2: "msm_dma_unmap_sg (ex_cache a 2 2) 1 ex_buf = ex_cache a 1 1" for a
    by (simp_all add: ex_defs msm_dma_unmap_sg_def msm_iommu_meta_put_def msm_iommu_meta_lookup_def
        msm_iommu_map_lookup_def)
  have c: "cached_map (ex_cache a k k) 7 1 = Some (ex_map k)" for a k
    by (simp add: ex_defs cached_map_def msm_iommu_meta_lookup_def msm_iommu_map_lookup_def)
  have last: "iommu_root (msm_dma_unmap_sg (ex_cache a 1 1) 1 ex_buf) = []" for a
    by (simp add: ex_defs msm_dma_unmap_sg_def msm_iommu_meta_put_def msm_iommu_meta_lookup_def
        msm_iommu_map_lookup_def)
  have ne: "ex_cache None 1 1 \<noteq> ex_cache None 2 2"
    by (simp add: ex_defs)
  have ne': "msm_dma_unmap_sg (ex_cache a 1 1) 1 ex_buf \<noteq> ex_cache a 1 1" for a
  proof
    assume "msm_dma_unmap_sg (ex_cache a 1 1) 1 ex_buf = ex_cache a 1 1"
    then have "iommu_root (msm_dma_unmap_sg (ex_cache a 1 1) 1 ex_buf) = iommu_root (ex_cache a 1 1)"
      by simp
    then show False unfolding last by (simp add: ex_defs)
  qed
  show ?thesis
    using ex_map_lazy ex_map_eager hit [of None 2] hit [of "Some [DMA_ATTR_NO_DELAYED_UNMAP]" 1]
      put3 [of None] put2 [of None] put2 [of "Some [DMA_ATTR_NO_DELAYED_UNMAP]"]
      c [of None 2] c [of "Some [DMA_ATTR_NO_DELAYED_UNMAP]" 1] ne
      ne' [of "Some [DMA_ATTR_NO_DELAYED_UNMAP]"]
    by simp
qed

text \<open>
  C9, amended. From a cache with no entry for the buffer, in an environment that grants
  two allocations and one mapping: the first map call returns and yields an address and
  a length; a second map call for the same device and buffer returns the same address
  and length and calls nothing outside but the barrier of a coherent device. If the first
  call had no \<^verbatim>\<open>DMA_ATTR_NO_DELAYED_UNMAP\<close>, the counts of the meta and of the map are
  then 3; the first unmap call lowers them to 2 and the second to 1, and neither calls
  \<^verbatim>\<open>dma_unmap_sg\<close> or frees anything: the map stays cached. If the first call had the
  attribute, the counts are 2; the first unmap call lowers them to 1 and frees nothing,
  and it is the second unmap call that brings them to 0, unmaps and frees the map and
  frees the meta.
\<close>

theorem map_twice_unmap_twice:
  "index_sorted st \<and> msm_iommu_meta_lookup (iommu_root st) (priv dbuf) = None \<and>
   2 \<le> length (filter id (kmalloc_replies st)) \<and>
   list_ex (\<lambda>r. r \<noteq> Retryable_failure) (dma_map_replies st) \<longrightarrow>
   (\<exists>st1 sg1 st2 mp.
      msm_dma_map_sg_attrs coh st d sg n di dbuf attrs = Some (st1, sg1, n) \<and>
      msm_dma_map_sg_attrs coh st1 d sg' n' di' dbuf attrs' =
        Some (st2, sg'\<lparr>sg_dma_address := sg_dma_address sg1,
                       sg_dma_length := sg_dma_length sg1\<rparr>, n') \<and>
      trace st2 = trace st1 @ (if coh d then [Ev_dmb] else []) \<and>
      map_dev mp = d \<and> map_sgl mp = sg1 \<and>
      (if dma_get_attr DMA_ATTR_NO_DELAYED_UNMAP attrs = 1
       then msm_iommu_meta_lookup (iommu_root st2) (priv dbuf) =
              Some \<lparr>meta_maps = [mp\<lparr>map_refcount := 2\<rparr>], meta_refcount = 2,
                    meta_buffer = priv dbuf\<rparr> \<and>
            msm_iommu_meta_lookup (iommu_root (msm_dma_unmap_sg st2 d dbuf)) (priv dbuf) =
              Some \<lparr>meta_maps = [mp\<lparr>map_refcount := 1\<rparr>], meta_refcount = 1,
                    meta_buffer = priv dbuf\<rparr> \<and>
            trace (msm_dma_unmap_sg st2 d dbuf) = trace st2 \<and>
            msm_iommu_meta_lookup
              (iommu_root (msm_dma_unmap_sg (msm_dma_unmap_sg st2 d dbuf) d dbuf)) (priv dbuf) =
              None \<and>
            trace (msm_dma_unmap_sg (msm_dma_unmap_sg st2 d dbuf) d dbuf) =
              trace st2 @ unmap_and_free (mp\<lparr>map_refcount := 0\<rparr>) @
              [Ev_kfree_meta \<lparr>meta_maps = [], meta_refcount = 0, meta_buffer = priv dbuf\<rparr>]
       else msm_iommu_meta_lookup (iommu_root st2) (priv dbuf) =
              Some \<lparr>meta_maps = [mp\<lparr>map_refcount := 3\<rparr>], meta_refcount = 3,
                    meta_buffer = priv dbuf\<rparr> \<and>
            msm_iommu_meta_lookup (iommu_root (msm_dma_unmap_sg st2 d dbuf)) (priv dbuf) =
              Some \<lparr>meta_maps = [mp\<lparr>map_refcount := 2\<rparr>], meta_refcount = 2,
                    meta_buffer = priv dbuf\<rparr> \<and>
            trace (msm_dma_unmap_sg st2 d dbuf) = trace st2 \<and>
            msm_iommu_meta_lookup
              (iommu_root (msm_dma_unmap_sg (msm_dma_unmap_sg st2 d dbuf) d dbuf)) (priv dbuf) =
              Some \<lparr>meta_maps = [mp\<lparr>map_refcount := 1\<rparr>], meta_refcount = 1,
                    meta_buffer = priv dbuf\<rparr> \<and>
            trace (msm_dma_unmap_sg (msm_dma_unmap_sg st2 d dbuf) d dbuf) = trace st2))"
proof
  assume a: "index_sorted st \<and> msm_iommu_meta_lookup (iommu_root st) (priv dbuf) = None \<and>
    2 \<le> length (filter id (kmalloc_replies st)) \<and>
    list_ex (\<lambda>r. r \<noteq> Retryable_failure) (dma_map_replies st)"
  then have s: "index_sorted st" and l: "msm_iommu_meta_lookup (iommu_root st) (priv dbuf) = None"
    by simp_all
  from a map_without_meta_returns [of st dbuf coh d sg n di attrs] obtain st1 sg1 where
    r1: "msm_dma_map_sg_attrs coh st d sg n di dbuf attrs = Some (st1, sg1, n)"
    by blast
  let ?seed = "word_of_int (2 - dma_get_attr DMA_ATTR_NO_DELAYED_UNMAP attrs) :: atomic_t"
  from map_creates_meta [OF l r1] obtain mp where
    mp: "map_dev mp = d" "map_sgl mp = sg1" "map_refcount mp = ?seed"
      "msm_iommu_meta_lookup (iommu_root st1) (priv dbuf) =
         Some \<lparr>meta_maps = [mp], meta_refcount = ?seed, meta_buffer = priv dbuf\<rparr>"
    by auto
  let ?m1 = "\<lparr>meta_maps = [mp], meta_refcount = ?seed, meta_buffer = priv dbuf\<rparr>"
  have s1: "index_sorted st1"
    using s r1 by (rule index_sorted_map)
  have p1: "msm_iommu_map_lookup ?m1 d = Some mp"
    using mp(1) by (simp add: msm_iommu_map_lookup_def)
  obtain st2 where
    r2: "msm_dma_map_sg_attrs coh st1 d sg' n' di' dbuf attrs' =
        Some (st2, sg'\<lparr>sg_dma_address := sg_dma_address sg1,
                       sg_dma_length := sg_dma_length sg1\<rparr>, n')"
    and t2: "trace st2 = trace st1 @ (if coh d then [Ev_dmb] else [])"
    using map_hit_eq [OF mp(4) p1, of coh sg' n' di' attrs'] mp(2) by simp
  have s2: "index_sorted st2"
    using s1 r2 by (rule index_sorted_map)
  have l2: "msm_iommu_meta_lookup (iommu_root st2) (priv dbuf) =
      Some \<lparr>meta_maps = [mp\<lparr>map_refcount := ?seed + 1\<rparr>], meta_refcount = ?seed + 1,
            meta_buffer = priv dbuf\<rparr>"
    using map_hit_lookup [OF mp(4) p1 r2, of "priv dbuf"] mp(1,3) by simp
  have d2: "map_dev (mp\<lparr>map_refcount := k\<rparr>) = d" for k
    using mp(1) by simp
  note u1 = unmap_sg_single [OF s2 l2 d2]
  have "if dma_get_attr DMA_ATTR_NO_DELAYED_UNMAP attrs = 1
       then msm_iommu_meta_lookup (iommu_root st2) (priv dbuf) =
              Some \<lparr>meta_maps = [mp\<lparr>map_refcount := 2\<rparr>], meta_refcount = 2,
                    meta_buffer = priv dbuf\<rparr> \<and>
            msm_iommu_meta_lookup (iommu_root (msm_dma_unmap_sg st2 d dbuf)) (priv dbuf) =
              Some \<lparr>meta_maps = [mp\<lparr>map_refcount := 1\<rparr>], meta_refcount = 1,
                    meta_buffer = priv dbuf\<rparr> \<and>
            trace (msm_dma_unmap_sg st2 d dbuf) = trace st2 \<and>
            msm_iommu_meta_lookup
              (iommu_root (msm_dma_unmap_sg (msm_dma_unmap_sg st2 d dbuf) d dbuf)) (priv dbuf) =
              None \<and>
            trace (msm_dma_unmap_sg (msm_dma_unmap_sg st2 d dbuf) d dbuf) =
              trace st2 @ unmap_and_free (mp\<lparr>map_refcount := 0\<rparr>) @
              [Ev_kfree_meta \<lparr>meta_maps = [], meta_refcount = 0, meta_buffer = priv dbuf\<rparr>]
       else msm_iommu_meta_lookup (iommu_root st2) (priv dbuf) =
              Some \<lparr>meta_maps = [mp\<lparr>map_refcount := 3\<rparr>], meta_refcount = 3,
                    meta_buffer = priv dbuf\<rparr> \<and>
            msm_iommu_meta_lookup (iommu_root (msm_dma_unmap_sg st2 d dbuf)) (priv dbuf) =
              Some \<lparr>meta_maps = [mp\<lparr>map_refcount := 2\<rparr>], meta_refcount = 2,
                    meta_buffer = priv dbuf\<rparr> \<and>
            trace (msm_dma_unmap_sg st2 d dbuf) = trace st2 \<and>
            msm_iommu_meta_lookup
              (iommu_root (msm_dma_unmap_sg (msm_dma_unmap_sg st2 d dbuf) d dbuf)) (priv dbuf) =
              Some \<lparr>meta_maps = [mp\<lparr>map_refcount := 1\<rparr>], meta_refcount = 1,
                    meta_buffer = priv dbuf\<rparr> \<and>
            trace (msm_dma_unmap_sg (msm_dma_unmap_sg st2 d dbuf) d dbuf) = trace st2"
  proof (cases "dma_get_attr DMA_ATTR_NO_DELAYED_UNMAP attrs = 1")
    case True
    then have seed: "?seed = 1" by simp
    have l3: "msm_iommu_meta_lookup (iommu_root (msm_dma_unmap_sg st2 d dbuf)) (priv dbuf) =
              Some \<lparr>meta_maps = [mp\<lparr>map_refcount := 1\<rparr>], meta_refcount = 1,
                    meta_buffer = priv dbuf\<rparr>"
      and t3: "trace (msm_dma_unmap_sg st2 d dbuf) = trace st2"
      using u1 unfolding seed by simp_all
    have s3: "index_sorted (msm_dma_unmap_sg st2 d dbuf)"
      using s2 by (rule index_sorted_unmap_sg)
    note u2 = unmap_sg_single [OF s3 l3 d2]
    show ?thesis
      using True l2 l3 t3 u2 unfolding seed by simp
  next
    case False
    with dma_get_attr_cases [of DMA_ATTR_NO_DELAYED_UNMAP attrs]
    have "dma_get_attr DMA_ATTR_NO_DELAYED_UNMAP attrs = 0" by simp
    then have seed: "?seed = 2" by simp
    have l3: "msm_iommu_meta_lookup (iommu_root (msm_dma_unmap_sg st2 d dbuf)) (priv dbuf) =
              Some \<lparr>meta_maps = [mp\<lparr>map_refcount := 2\<rparr>], meta_refcount = 2,
                    meta_buffer = priv dbuf\<rparr>"
      and t3: "trace (msm_dma_unmap_sg st2 d dbuf) = trace st2"
      using u1 unfolding seed by simp_all
    have s3: "index_sorted (msm_dma_unmap_sg st2 d dbuf)"
      using s2 by (rule index_sorted_unmap_sg)
    note u2 = unmap_sg_single [OF s3 l3 d2]
    show ?thesis
      using False l2 l3 t3 u2 unfolding seed by simp
  qed
  with r1 r2 t2 mp(1,2) show "\<exists>st1 sg1 st2 mp.
      msm_dma_map_sg_attrs coh st d sg n di dbuf attrs = Some (st1, sg1, n) \<and>
      msm_dma_map_sg_attrs coh st1 d sg' n' di' dbuf attrs' =
        Some (st2, sg'\<lparr>sg_dma_address := sg_dma_address sg1,
                       sg_dma_length := sg_dma_length sg1\<rparr>, n') \<and>
      trace st2 = trace st1 @ (if coh d then [Ev_dmb] else []) \<and>
      map_dev mp = d \<and> map_sgl mp = sg1 \<and>
      (if dma_get_attr DMA_ATTR_NO_DELAYED_UNMAP attrs = 1
       then msm_iommu_meta_lookup (iommu_root st2) (priv dbuf) =
              Some \<lparr>meta_maps = [mp\<lparr>map_refcount := 2\<rparr>], meta_refcount = 2,
                    meta_buffer = priv dbuf\<rparr> \<and>
            msm_iommu_meta_lookup (iommu_root (msm_dma_unmap_sg st2 d dbuf)) (priv dbuf) =
              Some \<lparr>meta_maps = [mp\<lparr>map_refcount := 1\<rparr>], meta_refcount = 1,
                    meta_buffer = priv dbuf\<rparr> \<and>
            trace (msm_dma_unmap_sg st2 d dbuf) = trace st2 \<and>
            msm_iommu_meta_lookup
              (iommu_root (msm_dma_unmap_sg (msm_dma_unmap_sg st2 d dbuf) d dbuf)) (priv dbuf) =
              None \<and>
            trace (msm_dma_unmap_sg (msm_dma_unmap_sg st2 d dbuf) d dbuf) =
              trace st2 @ unmap_and_free (mp\<lparr>map_refcount := 0\<rparr>) @
              [Ev_kfree_meta \<lparr>meta_maps = [], meta_refcount = 0, meta_buffer = priv dbuf\<rparr>]
       else msm_iommu_meta_lookup (iommu_root st2) (priv dbuf) =
              Some \<lparr>meta_maps = [mp\<lparr>map_refcount := 3\<rparr>], meta_refcount = 3,
                    meta_buffer = priv dbuf\<rparr> \<and>
            msm_iommu_meta_lookup (iommu_root (msm_dma_unmap_sg st2 d dbuf)) (priv dbuf) =
              Some \<lparr>meta_maps = [mp\<lparr>map_refcount := 2\<rparr>], meta_refcount = 2,
                    meta_buffer = priv dbuf\<rparr> \<and>
            trace (msm_dma_unmap_sg st2 d dbuf) = trace st2 \<and>
            msm_iommu_meta_lookup
              (iommu_root (msm_dma_unmap_sg (msm_dma_unmap_sg st2 d dbuf) d dbuf)) (priv dbuf) =
              Some \<lparr>meta_maps = [mp\<lparr>map_refcount := 1\<rparr>], meta_refcount = 1,
                    meta_buffer = priv dbuf\<rparr> \<and>
            trace (msm_dma_unmap_sg (msm_dma_unmap_sg st2 d dbuf) d dbuf) = trace st2)"
    by blast
qed

text \<open>
  The concrete run without the attribute: two map calls, then two unmap calls; the map
  is still cached, with count 1.
\<close>

theorem map_twice_unmap_twice_witness:
  "(index_sorted ex_start \<and> msm_iommu_meta_lookup (iommu_root ex_start) (priv ex_buf) = None \<and>
    2 \<le> length (filter id (kmalloc_replies ex_start)) \<and>
    list_ex (\<lambda>r. r \<noteq> Retryable_failure) (dma_map_replies ex_start)) \<and>
   (\<exists>st1 sg1 st2 mp.
      msm_dma_map_sg_attrs no_device_coherent ex_start 1 ex_sg 1 DMA_TO_DEVICE ex_buf None =
        Some (st1, sg1, 1) \<and>
      msm_dma_map_sg_attrs no_device_coherent st1 1 ex_sg 1 DMA_TO_DEVICE ex_buf None =
        Some (st2, ex_sg\<lparr>sg_dma_address := sg_dma_address sg1,
                        sg_dma_length := sg_dma_length sg1\<rparr>, 1) \<and>
      trace st2 = trace st1 \<and>
      msm_iommu_meta_lookup
        (iommu_root (msm_dma_unmap_sg (msm_dma_unmap_sg st2 1 ex_buf) 1 ex_buf)) (priv ex_buf) =
        Some \<lparr>meta_maps = [mp\<lparr>map_refcount := 1\<rparr>], meta_refcount = 1,
              meta_buffer = priv ex_buf\<rparr> \<and>
      trace (msm_dma_unmap_sg (msm_dma_unmap_sg st2 1 ex_buf) 1 ex_buf) = trace st2)"
proof -
  have h: "index_sorted ex_start \<and> msm_iommu_meta_lookup (iommu_root ex_start) (priv ex_buf) = None \<and>
    2 \<le> length (filter id (kmalloc_replies ex_start)) \<and>
    list_ex (\<lambda>r. r \<noteq> Retryable_failure) (dma_map_replies ex_start)"
    by (simp add: ex_defs index_sorted_def msm_iommu_meta_lookup_def)
  have g0: "dma_get_attr DMA_ATTR_NO_DELAYED_UNMAP None \<noteq> 1"
    by (simp add: dma_get_attr_def)
  have nc: "(if no_device_coherent 1 then [Ev_dmb] else []) = []"
    by (simp add: no_device_coherent_def)
  from map_twice_unmap_twice [where st = ex_start and dbuf = ex_buf and d = 1
      and coh = no_device_coherent and sg = ex_sg and n = 1 and di = DMA_TO_DEVICE
      and attrs = None and sg' = ex_sg and n' = 1 and di' = DMA_TO_DEVICE and attrs' = None,
      rule_format, OF h]
  have "\<exists>st1 sg1 st2 mp.
      msm_dma_map_sg_attrs no_device_coherent ex_start 1 ex_sg 1 DMA_TO_DEVICE ex_buf None =
        Some (st1, sg1, 1) \<and>
      msm_dma_map_sg_attrs no_device_coherent st1 1 ex_sg 1 DMA_TO_DEVICE ex_buf None =
        Some (st2, ex_sg\<lparr>sg_dma_address := sg_dma_address sg1,
                        sg_dma_length := sg_dma_length sg1\<rparr>, 1) \<and>
      trace st2 = trace st1 \<and>
      msm_iommu_meta_lookup
        (iommu_root (msm_dma_unmap_sg (msm_dma_unmap_sg st2 1 ex_buf) 1 ex_buf)) (priv ex_buf) =
        Some \<lparr>meta_maps = [mp\<lparr>map_refcount := 1\<rparr>], meta_refcount = 1,
              meta_buffer = priv ex_buf\<rparr> \<and>
      trace (msm_dma_unmap_sg (msm_dma_unmap_sg st2 1 ex_buf) 1 ex_buf) = trace st2"
    unfolding if_not_P [OF g0] nc append_Nil2 by blast
  with h show ?thesis by blast
qed

end
